theory Spec2Isabelle
  imports Main
begin

section \<open>Python values\<close>

text \<open>
  The scripts handle what \<^verbatim>\<open>response.json()\<close> returns: \<^verbatim>\<open>None\<close>, booleans, integers,
  strings, lists and dicts. A dict is an association list in insertion order (the order
  \<^verbatim>\<open>.items()\<close> iterates in); a Python dict never holds a key twice. JSON numbers with a
  fraction (Python floats) are left out of the model.
\<close>

datatype jv =
    JNull
  | JBool bool
  | JInt int
  | JStr string
  | JList "jv list"
  | JDict "(string \<times> jv) list"

datatype py_error =
    AttributeError
  | TypeError
  | KeyError
  | OverflowError
  | JSONDecodeError
  | ValueError
  | RecursionError
  | RequestException

text \<open>Truth value of an object, as \<^verbatim>\<open>if x\<close>, \<^verbatim>\<open>not x\<close> and \<^verbatim>\<open>x or y\<close> test it.\<close>

fun truthy :: "jv \<Rightarrow> bool" where
  "truthy JNull = False"
| "truthy (JBool b) = b"
| "truthy (JInt i) = (i \<noteq> 0)"
| "truthy (JStr s) = (s \<noteq> [])"
| "truthy (JList xs) = (xs \<noteq> [])"
| "truthy (JDict d) = (d \<noteq> [])"

text \<open>\<^verbatim>\<open>x or y\<close>: the first operand when it is true, the second otherwise.\<close>

definition py_or :: "jv \<Rightarrow> jv \<Rightarrow> jv" where
  "py_or x y = (if truthy x then x else y)"

text \<open>\<^verbatim>\<open>isinstance(x, dict)\<close> and \<^verbatim>\<open>isinstance(x, (list, dict))\<close>.\<close>

fun is_dict :: "jv \<Rightarrow> bool" where
  "is_dict (JDict d) = True"
| "is_dict v = False"

fun is_nested :: "jv \<Rightarrow> bool" where
  "is_nested (JList xs) = True"
| "is_nested (JDict d) = True"
| "is_nested v = False"

text \<open>\<^verbatim>\<open>d.get(k)\<close> on a dict: the value, or \<^verbatim>\<open>None\<close> when the key is absent.\<close>

definition dict_get :: "(string \<times> jv) list \<Rightarrow> string \<Rightarrow> jv" where
  "dict_get d k = (case map_of d k of None \<Rightarrow> JNull | Some v \<Rightarrow> v)"

text \<open>
  \<^verbatim>\<open>x.get(k, default)\<close> on any object: only a dict has the method, every other JSON value
  raises AttributeError.
\<close>

fun py_get :: "jv \<Rightarrow> string \<Rightarrow> jv \<Rightarrow> py_error + jv" where
  "py_get (JDict d) k dflt = Inr (case map_of d k of None \<Rightarrow> dflt | Some v \<Rightarrow> v)"
| "py_get v k dflt = Inl AttributeError"

text \<open>
  \<^verbatim>\<open>for x in v\<close>: a list yields its elements, a dict its keys, a string its characters;
  \<^verbatim>\<open>None\<close>, booleans and integers are not iterable.
\<close>

fun py_iter :: "jv \<Rightarrow> py_error + jv list" where
  "py_iter (JList xs) = Inr xs"
| "py_iter (JDict d) = Inr (map (\<lambda>kv. JStr (fst kv)) d)"
| "py_iter (JStr s) = Inr (map (\<lambda>c. JStr [c]) s)"
| "py_iter v = Inl TypeError"

text \<open>
  Membership in a Python set hashes the object first: lists and dicts are unhashable
  (TypeError). Hashable JSON values compare with \<^verbatim>\<open>==\<close>, under which \<^verbatim>\<open>True == 1\<close> and
  \<^verbatim>\<open>False == 0\<close>.
\<close>

fun hashable :: "jv \<Rightarrow> bool" where
  "hashable (JList xs) = False"
| "hashable (JDict d) = False"
| "hashable v = True"

fun py_num :: "jv \<Rightarrow> int option" where
  "py_num (JBool b) = Some (if b then 1 else 0)"
| "py_num (JInt i) = Some i"
| "py_num v = None"

fun py_eq :: "jv \<Rightarrow> jv \<Rightarrow> bool" where
  "py_eq JNull JNull = True"
| "py_eq (JStr s) (JStr t) = (s = t)"
| "py_eq (JBool a) y = (py_num y = Some (if a then 1 else 0))"
| "py_eq (JInt i) y = (py_num y = Some i)"
| "py_eq x y = False"

definition py_in :: "jv \<Rightarrow> jv list \<Rightarrow> bool" where
  "py_in x seen = list_ex (\<lambda>e. py_eq e x) seen"

section \<open>Time window (pedidos\_itens.py)\<close>

text \<open>
  A \<^verbatim>\<open>datetime\<close> in the fixed offset UTC-3 that \<^verbatim>\<open>agora_brasil\<close> returns. The calendar
  arithmetic is the one the \<^verbatim>\<open>datetime\<close> module performs: a date is converted to its
  proleptic Gregorian ordinal, the days are subtracted, and the ordinal is converted back.
\<close>

record datetime =
  year :: int
  month :: int
  day :: int
  hour :: int
  minute :: int
  second :: int
  microsecond :: int

definition is_leap :: "int \<Rightarrow> bool" where
  "is_leap y = (y mod 4 = 0 \<and> (y mod 100 \<noteq> 0 \<or> y mod 400 = 0))"

definition days_before_year :: "int \<Rightarrow> int" where
  "days_before_year y = (y - 1) * 365 + (y - 1) div 4 - (y - 1) div 100 + (y - 1) div 400"

definition DAYS_IN_MONTH :: "int list" where
  "DAYS_IN_MONTH = [-1, 31, 28, 31, 30, 31, 30, 31, 31, 30, 31, 30, 31]"

definition DAYS_BEFORE_MONTH :: "int list" where
  "DAYS_BEFORE_MONTH = [-1, 0, 31, 59, 90, 120, 151, 181, 212, 243, 273, 304, 334]"

definition days_before_month :: "int \<Rightarrow> int \<Rightarrow> int" where
  "days_before_month y m =
     DAYS_BEFORE_MONTH ! nat m + (if m > 2 \<and> is_leap y then 1 else 0)"

definition ymd2ord :: "int \<Rightarrow> int \<Rightarrow> int \<Rightarrow> int" where
  "ymd2ord y m d = days_before_year y + days_before_month y m + d"

definition ord2ymd :: "int \<Rightarrow> int \<times> int \<times> int" where
  "ord2ymd n0 =
     (let n = n0 - 1;
          n400 = n div 146097; n = n mod 146097;
          y = n400 * 400 + 1;
          n100 = n div 36524; n = n mod 36524;
          n4 = n div 1461; n = n mod 1461;
          n1 = n div 365; n = n mod 365;
          y = y + n100 * 100 + n4 * 4 + n1
      in if n1 = 4 \<or> n100 = 4 then (y - 1, 12, 31)
         else
           let leapyear = (n1 = 3 \<and> (n4 \<noteq> 24 \<or> n100 = 3));
               m = (n + 50) div 32;
               preceding = DAYS_BEFORE_MONTH ! nat m + (if m > 2 \<and> leapyear then 1 else 0)
           in if preceding > n
              then let m' = m - 1;
                       preceding' = preceding
                         - (DAYS_IN_MONTH ! nat m' + (if m' = 2 \<and> leapyear then 1 else 0))
                   in (y, m', n - preceding' + 1)
              else (y, m, n - preceding + 1))"

text \<open>
  \<^verbatim>\<open>dt - timedelta(days=k)\<close>: the datetime becomes a count of days, seconds and
  microseconds, the days are subtracted, and a result whose day count is not in
  \<^verbatim>\<open>1..3652059\<close> raises OverflowError.
\<close>

definition sub_days :: "datetime \<Rightarrow> int \<Rightarrow> py_error + datetime" where
  "sub_days dt k =
     (let us = microsecond dt;
          secs = hour dt * 3600 + minute dt * 60 + second dt + us div 1000000;
          days = ymd2ord (year dt) (month dt) (day dt) + secs div 86400 - k;
          secs = secs mod 86400
      in if 0 < days \<and> days \<le> 3652059
         then (case ord2ymd days of (y, m, d) \<Rightarrow>
                 Inr \<lparr>year = y, month = m, day = d,
                      hour = secs div 3600, minute = (secs mod 3600) div 60,
                      second = (secs mod 3600) mod 60, microsecond = us mod 1000000\<rparr>)
         else Inl OverflowError)"

text \<open>\<^verbatim>\<open>gerar_intervalo\<close>, with the value of \<^verbatim>\<open>agora_brasil()\<close> as its argument.\<close>

definition gerar_intervalo :: "datetime \<Rightarrow> py_error + (datetime \<times> datetime)" where
  "gerar_intervalo agora =
     (case sub_days agora 4 of
        Inl e \<Rightarrow> Inl e
      | Inr d \<Rightarrow>
          Inr (d\<lparr>hour := 0, minute := 0, second := 0, microsecond := 0\<rparr>,
               agora\<lparr>hour := 23, minute := 59, second := 59, microsecond := 0\<rparr>))"

section \<open>HTTP responses\<close>

text \<open>
  What one \<^verbatim>\<open>requests.get\<close> call can give: the call itself raises (connection error,
  timeout: a \<^verbatim>\<open>RequestException\<close>), or a response arrives with a status code and a body.
  The second field is what \<^verbatim>\<open>.json()\<close> does on that body: it returns the parsed value
  (\<open>Inr\<close>) or raises (\<open>Inl\<close>): requests' \<^verbatim>\<open>JSONDecodeError\<close> on text that is not JSON, a plain
  \<^verbatim>\<open>ValueError\<close> (an integer literal beyond the interpreter's digit limit) or a
  \<^verbatim>\<open>RecursionError\<close> (nesting too deep).
\<close>

datatype http_outcome = ConnError | Resp nat "py_error + jv"

text \<open>
  \<^verbatim>\<open>requests.get(...); response.raise_for_status(); response.json()\<close>:
  \<^verbatim>\<open>raise_for_status\<close> raises \<^verbatim>\<open>HTTPError\<close> for a status in 400..599, and \<^verbatim>\<open>.json()\<close> returns
  or raises as the body makes it.
\<close>

definition fetch_json :: "http_outcome \<Rightarrow> py_error + jv" where
  "fetch_json r =
     (case r of
        ConnError \<Rightarrow> Inl RequestException
      | Resp status body \<Rightarrow>
          if 400 \<le> status \<and> status < 600 then Inl RequestException
          else body)"

text \<open>
  \<^verbatim>\<open>except requests.exceptions.RequestException\<close>: \<^verbatim>\<open>HTTPError\<close>, \<^verbatim>\<open>ConnectionError\<close>,
  \<^verbatim>\<open>Timeout\<close> and requests' \<^verbatim>\<open>JSONDecodeError\<close> (requests 2.27 and later) all derive
  from it; \<^verbatim>\<open>ValueError\<close>, \<^verbatim>\<open>RecursionError\<close> and the errors of the script's own code do
  not, and pass through the handler.
\<close>

fun is_request_exception :: "py_error \<Rightarrow> bool" where
  "is_request_exception RequestException = True"
| "is_request_exception JSONDecodeError = True"
| "is_request_exception e = False"

text \<open>
  How a loop that keeps requesting ends on a finite list of responses: it returned, it
  raised, or it has issued one more request than the list answers (\<open>Pending\<close>, with the
  loop's variables at that moment).
\<close>

datatype ('a, 's) outcome = Returned 'a | Raised py_error | Pending 's

section \<open>Sellers: paginated fetch with deduplication (lista\_sellers.py)\<close>

record fetch_state =
  all_sellers :: "jv list"
  seen_ids :: "jv list"
  total_sellers :: jv

text \<open>
  \<^verbatim>\<open>seller.get('SellerId') or seller.get('id') or seller.get('sellerId')\<close>
\<close>

definition seller_id_of :: "(string \<times> jv) list \<Rightarrow> jv" where
  "seller_id_of d =
     py_or (py_or (dict_get d ''SellerId'') (dict_get d ''id'')) (dict_get d ''sellerId'')"

text \<open>
  The \<^verbatim>\<open>for seller in sellers\<close> loop of \<^verbatim>\<open>get_all_sellers\<close>; the number is
  \<^verbatim>\<open>new_sellers_count\<close>. \<^verbatim>\<open>seller_id not in seen_ids\<close> raises TypeError on a list or a dict.
\<close>

fun scan_sellers :: "jv list \<Rightarrow> fetch_state \<Rightarrow> nat \<Rightarrow> py_error + (fetch_state \<times> nat)" where
  "scan_sellers [] st n = Inr (st, n)"
| "scan_sellers (seller # rest) st n =
     (case seller of
        JDict d \<Rightarrow>
          (let seller_id = seller_id_of d
           in if \<not> truthy seller_id then scan_sellers rest st n
              else if \<not> hashable seller_id then Inl TypeError
              else if py_in seller_id (seen_ids st) then scan_sellers rest st n
              else scan_sellers rest
                     (st\<lparr>all_sellers := all_sellers st @ [seller],
                         seen_ids := seen_ids st @ [seller_id]\<rparr>) (Suc n))
      | _ \<Rightarrow> scan_sellers rest st n)"

text \<open>\<^verbatim>\<open>n >= total\<close> for an integer \<open>n\<close>: defined against numbers only.\<close>

fun int_ge :: "int \<Rightarrow> jv \<Rightarrow> py_error + bool" where
  "int_ge n (JInt i) = Inr (n \<ge> i)"
| "int_ge n (JBool b) = Inr (n \<ge> (if b then 1 else 0))"
| "int_ge n v = Inl TypeError"

text \<open>
  The body of the \<^verbatim>\<open>if isinstance(data, dict)\<close> branch up to the stopping test: reads
  \<^verbatim>\<open>items\<close> and \<^verbatim>\<open>paging\<close>, fixes \<^verbatim>\<open>total_sellers\<close> while it is still \<^verbatim>\<open>None\<close>, and scans the
  sellers when \<^verbatim>\<open>items\<close> is true.
\<close>

definition process_page :: "(string \<times> jv) list \<Rightarrow> fetch_state \<Rightarrow> py_error + (fetch_state \<times> nat)" where
  "process_page d st =
     (let sellers = (case map_of d ''items'' of None \<Rightarrow> JList [] | Some v \<Rightarrow> v);
          paging = (case map_of d ''paging'' of None \<Rightarrow> JDict [] | Some v \<Rightarrow> v)
      in case (if total_sellers st = JNull then py_get paging ''total'' (JInt 0)
               else Inr (total_sellers st)) of
           Inl e \<Rightarrow> Inl e
         | Inr tot \<Rightarrow>
             if truthy sellers
             then (case py_iter sellers of
                     Inl e \<Rightarrow> Inl e
                   | Inr xs \<Rightarrow> scan_sellers xs (st\<lparr>total_sellers := tot\<rparr>) 0)
             else Inr (st\<lparr>total_sellers := tot\<rparr>, 0))"

text \<open>
  \<^verbatim>\<open>(total_sellers and len(all_sellers) >= total_sellers) or new_sellers_count == 0\<close>
\<close>

definition should_stop :: "fetch_state \<Rightarrow> nat \<Rightarrow> py_error + bool" where
  "should_stop st new_sellers_count =
     (if truthy (total_sellers st)
      then (case int_ge (int (length (all_sellers st))) (total_sellers st) of
              Inl e \<Rightarrow> Inl e
            | Inr reached \<Rightarrow> Inr (reached \<or> new_sellers_count = 0))
      else Inr (new_sellers_count = 0))"

datatype step = Break "jv list" | Continue fetch_state | Raise py_error

text \<open>One pass through the body of \<^verbatim>\<open>while True\<close>, given the response to its request.\<close>

definition page_step :: "fetch_state \<Rightarrow> http_outcome \<Rightarrow> step" where
  "page_step st r =
     (case fetch_json r of
        Inl e \<Rightarrow> if is_request_exception e then Break (all_sellers st) else Raise e
      | Inr data \<Rightarrow>
          (case data of
             JDict d \<Rightarrow>
               (case process_page d st of
                  Inl e \<Rightarrow> Raise e
                | Inr (st', new_sellers_count) \<Rightarrow>
                    (case should_stop st' new_sellers_count of
                       Inl e \<Rightarrow> Raise e
                     | Inr stop \<Rightarrow> if stop then Break (all_sellers st') else Continue st'))
           | JList xs \<Rightarrow> Break xs
           | _ \<Rightarrow> Break []))"

fun fetch_loop :: "fetch_state \<Rightarrow> http_outcome list \<Rightarrow> (jv list, fetch_state) outcome" where
  "fetch_loop st [] = Pending st"
| "fetch_loop st (r # rs) =
     (case page_step st r of
        Break xs \<Rightarrow> Returned xs
      | Raise e \<Rightarrow> Raised e
      | Continue st' \<Rightarrow> fetch_loop st' rs)"

text \<open>The number of requests of the loop that the responses \<open>rs\<close> answer.\<close>

fun requests_answered :: "fetch_state \<Rightarrow> http_outcome list \<Rightarrow> nat" where
  "requests_answered st [] = 0"
| "requests_answered st (r # rs) =
     (case page_step st r of
        Continue st' \<Rightarrow> Suc (requests_answered st' rs)
      | _ \<Rightarrow> 1)"

definition init_state :: fetch_state where
  "init_state = \<lparr>all_sellers = [], seen_ids = [], total_sellers = JNull\<rparr>"

definition get_all_sellers :: "http_outcome list \<Rightarrow> (jv list, fetch_state) outcome" where
  "get_all_sellers rs = fetch_loop init_state rs"

text \<open>
  The resolved identifier of an entity of the result list: that of \<^verbatim>\<open>seller_id_of\<close> for a
  dict, none (\<^verbatim>\<open>None\<close>) for anything else. \<open>py_distinct\<close>: no two positions hold
  identifiers that Python's \<^verbatim>\<open>==\<close> equates.
\<close>

fun entity_id :: "jv \<Rightarrow> jv" where
  "entity_id (JDict d) = seller_id_of d"
| "entity_id v = JNull"

fun py_distinct :: "jv list \<Rightarrow> bool" where
  "py_distinct [] = True"
| "py_distinct (x # xs) = (\<not> py_in x xs \<and> py_distinct xs)"

text \<open>
  Invariant of the loop's variables: \<^verbatim>\<open>seen_ids\<close> holds the identifiers of \<^verbatim>\<open>all_sellers\<close>,
  every accumulated entity is a dict with a true, hashable identifier, and no identifier
  occurs twice.
\<close>

definition has_id :: "jv \<Rightarrow> bool" where
  "has_id s = (is_dict s \<and> truthy (entity_id s) \<and> hashable (entity_id s))"

definition accepted_ok :: "fetch_state \<Rightarrow> bool" where
  "accepted_ok st =
     (seen_ids st = map entity_id (all_sellers st) \<and> list_all has_id (all_sellers st)
      \<and> py_distinct (seen_ids st))"

definition unique_ids :: "jv list \<Rightarrow> bool" where
  "unique_ids xs = (list_all has_id xs \<and> py_distinct (map entity_id xs))"

section \<open>Sellers: detail resolver and CSV export (lista\_sellers.py)\<close>

text \<open>
  \<^verbatim>\<open>get_seller_details\<close>. \<open>net n seller_id\<close> is what the \<open>n\<close>-th detail request of the run
  gives when it asks for \<open>seller_id\<close>; the function returns its result and the number of
  requests issued so far.
\<close>

definition get_seller_details ::
  "(nat \<Rightarrow> jv \<Rightarrow> http_outcome) \<Rightarrow> nat \<Rightarrow> jv \<Rightarrow> (py_error + jv) \<times> nat" where
  "get_seller_details net n seller_id =
     ((case fetch_json (net n seller_id) of
         Inl e \<Rightarrow> if is_request_exception e then Inr (JDict []) else Inl e
       | Inr v \<Rightarrow> Inr v),
      Suc n)"

text \<open>The \<^verbatim>\<open>for i, seller in enumerate(sellers, 1)\<close> loop of \<^verbatim>\<open>export_sellers\<close>.\<close>

fun add_details ::
  "(nat \<Rightarrow> jv \<Rightarrow> http_outcome) \<Rightarrow> nat \<Rightarrow> jv list \<Rightarrow> (py_error + jv list) \<times> nat" where
  "add_details net n [] = (Inr [], n)"
| "add_details net n (seller # rest) =
     (case seller of
        JDict d \<Rightarrow>
          (let seller_id = py_or (dict_get d ''id'') (dict_get d ''sellerId'')
           in if truthy seller_id
              then (case get_seller_details net n seller_id of
                      (Inl e, n') \<Rightarrow> (Inl e, n')
                    | (Inr details, n') \<Rightarrow>
                        (case add_details net n' rest of
                           (Inl e, m) \<Rightarrow> (Inl e, m)
                         | (Inr ys, m) \<Rightarrow>
                             (Inr ((if truthy details then details else seller) # ys), m)))
              else (case add_details net n rest of
                      (Inl e, m) \<Rightarrow> (Inl e, m)
                    | (Inr ys, m) \<Rightarrow> (Inr (seller # ys), m)))
      | _ \<Rightarrow> (Inl AttributeError, n))"

definition fieldnames0 :: "string list" where
  "fieldnames0 =
     [''id'', ''name'', ''email'', ''description'', ''exchangeReturnPolicy'',
      ''deliveryPolicy'', ''useHybridPaymentOptions'', ''userName'', ''password'',
      ''SonarConfiguration'', ''taxCode'', ''isActive'', ''fulfillmentEndpoint'',
      ''catalogSystemEndpoint'', ''allowHybridPayments'', ''sellerType'',
      ''availableSalesChannels'', ''trustPolicy'', ''channel'', ''sellerId'',
      ''CSCIdentification'']"

definition field_mapping :: "(string \<times> string) list" where
  "field_mapping =
     [(''SellerId'', ''id''), (''Name'', ''name''), (''Email'', ''email''),
      (''Description'', ''description''),
      (''ExchangeReturnPolicy'', ''exchangeReturnPolicy''),
      (''DeliveryPolicy'', ''deliveryPolicy''),
      (''UseHybridPaymentOptions'', ''useHybridPaymentOptions''),
      (''UserName'', ''userName''), (''Password'', ''password''),
      (''TaxCode'', ''taxCode''), (''IsActive'', ''isActive''),
      (''FulfillmentEndpoint'', ''fulfillmentEndpoint''),
      (''CatalogSystemEndpoint'', ''catalogSystemEndpoint'')]"

text \<open>\<^verbatim>\<open>field_mapping.get(key, key)\<close>\<close>

definition target_key :: "string \<Rightarrow> string" where
  "target_key k = (case map_of field_mapping k of None \<Rightarrow> k | Some t \<Rightarrow> t)"

text \<open>
  The value stored for a field: \<^verbatim>\<open>json.dumps(value, ensure_ascii=False)\<close> for a list or a
  dict, the value itself otherwise. \<open>dumps\<close> stands for the library's serializer.
\<close>

definition convert_value :: "(jv \<Rightarrow> string) \<Rightarrow> jv \<Rightarrow> jv" where
  "convert_value dumps v = (if is_nested v then JStr (dumps v) else v)"

text \<open>The \<^verbatim>\<open>for key, value in seller.items()\<close> loop: each field is stored under its target key.\<close>

fun fill_row :: "(jv \<Rightarrow> string) \<Rightarrow> (string \<times> jv) list \<Rightarrow> (string \<rightharpoonup> jv) \<Rightarrow> (string \<rightharpoonup> jv)" where
  "fill_row dumps [] row = row"
| "fill_row dumps ((k, v) # kvs) row =
     fill_row dumps kvs (row(target_key k \<mapsto> convert_value dumps v))"

text \<open>
  The row written for one seller: the loop, then
  \<^verbatim>\<open>if 'id' not in row and 'SellerId' in seller: row['id'] = seller['SellerId']\<close>.
\<close>

definition normalize_row :: "(jv \<Rightarrow> string) \<Rightarrow> (string \<times> jv) list \<Rightarrow> (string \<rightharpoonup> jv)" where
  "normalize_row dumps seller =
     (let row = fill_row dumps seller Map.empty
      in case map_of seller ''SellerId'' of
           None \<Rightarrow> row
         | Some v \<Rightarrow> if row ''id'' = None then row(''id'' \<mapsto> v) else row)"

text \<open>
  A CSV file as the writer receives it: the header's column names and, for each line, one
  cell per column.
\<close>

record csv_file =
  header :: "string list"
  data_rows :: "jv list list"

text \<open>\<^verbatim>\<open>all_keys\<close>: the keys of the sellers that are dicts.\<close>

fun all_keys :: "jv list \<Rightarrow> string list" where
  "all_keys [] = []"
| "all_keys (JDict d # rest) = map fst d @ all_keys rest"
| "all_keys (v # rest) = all_keys rest"

text \<open>\<^verbatim>\<open>for key in all_keys: if key not in fieldnames: fieldnames.append(key)\<close>\<close>

fun add_fieldnames :: "string list \<Rightarrow> string list \<Rightarrow> string list" where
  "add_fieldnames [] fieldnames = fieldnames"
| "add_fieldnames (k # ks) fieldnames =
     add_fieldnames ks (if k \<in> set fieldnames then fieldnames else fieldnames @ [k])"

text \<open>
  The lines written by the \<^verbatim>\<open>for seller in sellers\<close> loop: entries that are not dicts are
  skipped; \<^verbatim>\<open>DictWriter\<close> writes the empty string for a column the row lacks and, with
  \<^verbatim>\<open>extrasaction='ignore'\<close>, drops row keys that are no column.
\<close>

fun write_rows :: "(jv \<Rightarrow> string) \<Rightarrow> string list \<Rightarrow> jv list \<Rightarrow> jv list list" where
  "write_rows dumps fieldnames [] = []"
| "write_rows dumps fieldnames (JDict d # rest) =
     map (\<lambda>f. case normalize_row dumps d f of None \<Rightarrow> JStr [] | Some v \<Rightarrow> v) fieldnames
       # write_rows dumps fieldnames rest"
| "write_rows dumps fieldnames (v # rest) = write_rows dumps fieldnames rest"

text \<open>
  \<^verbatim>\<open>export_to_csv\<close>: \<open>None\<close> when no file is written. \<open>set_order\<close> is the order in which
  Python iterates the set \<^verbatim>\<open>all_keys\<close>.
\<close>

definition export_to_csv ::
  "(jv \<Rightarrow> string) \<Rightarrow> (string list \<Rightarrow> string list) \<Rightarrow> jv list \<Rightarrow> csv_file option" where
  "export_to_csv dumps set_order sellers =
     (if sellers = [] then None
      else let fieldnames = add_fieldnames (set_order (all_keys sellers)) fieldnames0
           in Some \<lparr>header = fieldnames, data_rows = write_rows dumps fieldnames sellers\<rparr>)"

definition export_sellers ::
  "(jv \<Rightarrow> string) \<Rightarrow> (string list \<Rightarrow> string list) \<Rightarrow> http_outcome list
     \<Rightarrow> (nat \<Rightarrow> jv \<Rightarrow> http_outcome) \<Rightarrow> bool \<Rightarrow> (csv_file option, fetch_state) outcome" where
  "export_sellers dumps set_order rs net include_details =
     (case get_all_sellers rs of
        Returned sellers \<Rightarrow>
          (case (if include_details \<and> sellers \<noteq> [] then fst (add_details net 0 sellers)
                 else Inr sellers) of
             Inl e \<Rightarrow> Raised e
           | Inr sellers' \<Rightarrow> Returned (export_to_csv dumps set_order sellers'))
      | Raised e \<Rightarrow> Raised e
      | Pending st \<Rightarrow> Pending st)"

section \<open>Order items: collection and CSV (pedidos\_itens.py)\<close>

text \<open>
  \<^verbatim>\<open>converter_brasil\<close>: \<^verbatim>\<open>None\<close> for a false argument; otherwise the library chain
  \<^verbatim>\<open>fromisoformat(...).astimezone(...).strftime(...)\<close>, here \<open>to_local\<close>, which may raise.
\<close>

definition converter_brasil :: "(jv \<Rightarrow> py_error + string) \<Rightarrow> jv \<Rightarrow> py_error + jv" where
  "converter_brasil to_local data_iso =
     (if \<not> truthy data_iso then Inr JNull
      else (case to_local data_iso of Inl e \<Rightarrow> Inl e | Inr s \<Rightarrow> Inr (JStr s)))"

text \<open>
  The \<^verbatim>\<open>for _ in range(3)\<close> loop over the outcomes of its detail requests, with the number
  of requests it issues. The first response with status 200 whose body \<^verbatim>\<open>.json()\<close> parses
  ends it with that value; a raised \<^verbatim>\<open>RequestException\<close> (after a pause) and any other status
  go on to the next attempt; an exception of \<^verbatim>\<open>.json()\<close> that is no \<^verbatim>\<open>RequestException\<close>
  leaves the function; \<^verbatim>\<open>pedido\<close> stays \<^verbatim>\<open>None\<close> when no attempt succeeds.
\<close>

fun fetch_pedido :: "http_outcome list \<Rightarrow> (py_error + jv) \<times> nat" where
  "fetch_pedido [] = (Inr JNull, 0)"
| "fetch_pedido (r # rs) =
     (case r of
        ConnError \<Rightarrow> (case fetch_pedido rs of (p, n) \<Rightarrow> (p, Suc n))
      | Resp status body \<Rightarrow>
          if status = 200
          then (case body of
                  Inr v \<Rightarrow> (Inr v, 1)
                | Inl e \<Rightarrow>
                    if is_request_exception e
                    then (case fetch_pedido rs of (p, n) \<Rightarrow> (p, Suc n))
                    else (Inl e, 1))
          else (case fetch_pedido rs of (p, n) \<Rightarrow> (p, Suc n)))"

definition colunas_finais :: "string list" where
  "colunas_finais =
     [''creationDate'', ''orderId'', ''additionalInfo_categories'', ''name'', ''price'',
      ''listPrice'', ''quantity'', ''productId'', ''seller'', ''data_extracao'']"

text \<open>
  The \<^verbatim>\<open>for item in pedido.get("items", [])\<close> loop: one record per item. \<open>stamp j\<close> is the
  text of \<^verbatim>\<open>agora_brasil().strftime(...)\<close> when the \<open>j\<close>-th item is appended.
\<close>

fun item_records ::
  "jv \<Rightarrow> jv \<Rightarrow> (nat \<Rightarrow> string) \<Rightarrow> nat \<Rightarrow> jv list \<Rightarrow> py_error + (string \<times> jv) list list" where
  "item_records creation order_id stamp j [] = Inr []"
| "item_records creation order_id stamp j (item # rest) =
     (case py_get item ''additionalInfo'' (JDict []) of
        Inl e \<Rightarrow> Inl e
      | Inr info \<Rightarrow>
          (case py_get info ''categories'' JNull of
             Inl e \<Rightarrow> Inl e
           | Inr categories \<Rightarrow>
               (case item of
                  JDict d \<Rightarrow>
                    (case item_records creation order_id stamp (Suc j) rest of
                       Inl e \<Rightarrow> Inl e
                     | Inr others \<Rightarrow>
                         Inr ([(''creationDate'', creation),
                               (''orderId'', order_id),
                               (''additionalInfo_categories'', categories),
                               (''name'', dict_get d ''name''),
                               (''price'', dict_get d ''price''),
                               (''listPrice'', dict_get d ''listPrice''),
                               (''quantity'', dict_get d ''quantity''),
                               (''productId'', dict_get d ''productId''),
                               (''seller'', dict_get d ''seller''),
                               (''data_extracao'', JStr (stamp j))] # others))
                | _ \<Rightarrow> Inl AttributeError)))"

text \<open>
  What the requests of one page give: the page request's outcome, the outcome of the
  \<open>k\<close>-th detail attempt for the \<open>i\<close>-th order summary of the page, and the clock reading
  for the \<open>j\<close>-th item of that order.
\<close>

record page_env =
  page_resp :: http_outcome
  det_resp :: "nat \<Rightarrow> nat \<Rightarrow> http_outcome"
  clock :: "nat \<Rightarrow> nat \<Rightarrow> string"

text \<open>The \<^verbatim>\<open>for resumo in tqdm(pedidos)\<close> loop; the result is the records it appends.\<close>

fun collect_orders ::
  "(jv \<Rightarrow> py_error + string) \<Rightarrow> page_env \<Rightarrow> nat \<Rightarrow> jv list
     \<Rightarrow> py_error + (string \<times> jv) list list" where
  "collect_orders to_local env i [] = Inr []"
| "collect_orders to_local env i (resumo # rest) =
     (case py_get resumo ''orderId'' JNull of
        Inl e \<Rightarrow> Inl e
      | Inr order_id \<Rightarrow>
          if \<not> truthy order_id then collect_orders to_local env (Suc i) rest
          else
            (case fst (fetch_pedido (map (det_resp env i) [0..<3])) of
               Inl e \<Rightarrow> Inl e
             | Inr pedido \<Rightarrow>
               if \<not> truthy pedido then collect_orders to_local env (Suc i) rest
               else
                 (case py_get pedido ''creationDate'' JNull of
                    Inl e \<Rightarrow> Inl e
                  | Inr created \<Rightarrow>
                 (case converter_brasil to_local created of
                    Inl e \<Rightarrow> Inl e
                  | Inr creation_date_br \<Rightarrow>
                 (case py_get pedido ''items'' (JList []) of
                    Inl e \<Rightarrow> Inl e
                  | Inr its \<Rightarrow>
                 (case py_iter its of
                    Inl e \<Rightarrow> Inl e
                  | Inr items \<Rightarrow>
                 (case item_records creation_date_br order_id (clock env i) 0 items of
                    Inl e \<Rightarrow> Inl e
                  | Inr new \<Rightarrow>
                 (case collect_orders to_local env (Suc i) rest of
                    Inl e \<Rightarrow> Inl e
                  | Inr others \<Rightarrow> Inr (new @ others)))))))))"

text \<open>
  One pass through the body of \<^verbatim>\<open>while True\<close> in \<^verbatim>\<open>coletar_itens\<close>. The page request is
  outside any \<^verbatim>\<open>try\<close>: a raised exception leaves the function.
\<close>

datatype page_result =
    PageBreak
  | PageNext "(string \<times> jv) list list"
  | PageRaise py_error

definition coletar_page :: "(jv \<Rightarrow> py_error + string) \<Rightarrow> page_env \<Rightarrow> page_result" where
  "coletar_page to_local env =
     (case page_resp env of
        ConnError \<Rightarrow> PageRaise RequestException
      | Resp status body \<Rightarrow>
          if status \<noteq> 200 then PageBreak
          else (case body of
                  Inl e \<Rightarrow> PageRaise e
                | Inr data \<Rightarrow>
                    (case py_get data ''list'' (JList []) of
                       Inl e \<Rightarrow> PageRaise e
                     | Inr pedidos \<Rightarrow>
                         if \<not> truthy pedidos then PageBreak
                         else (case py_iter pedidos of
                                 Inl e \<Rightarrow> PageRaise e
                               | Inr xs \<Rightarrow>
                                   (case collect_orders to_local env 0 xs of
                                      Inl e \<Rightarrow> PageRaise e
                                    | Inr new \<Rightarrow> PageNext new)))))"

text \<open>
  The loop with its variables \<^verbatim>\<open>pagina\<close> and \<^verbatim>\<open>registros\<close>; \<open>Pending\<close> carries the number of
  the page whose request is unanswered and the records so far.
\<close>

fun coletar_loop ::
  "(jv \<Rightarrow> py_error + string) \<Rightarrow> nat \<Rightarrow> (string \<times> jv) list list \<Rightarrow> page_env list
     \<Rightarrow> ((string \<times> jv) list list, nat \<times> (string \<times> jv) list list) outcome" where
  "coletar_loop to_local pagina registros [] = Pending (pagina, registros)"
| "coletar_loop to_local pagina registros (env # envs) =
     (case coletar_page to_local env of
        PageBreak \<Rightarrow> Returned registros
      | PageRaise e \<Rightarrow> Raised e
      | PageNext new \<Rightarrow> coletar_loop to_local (Suc pagina) (registros @ new) envs)"

text \<open>The number of page requests of the loop that \<open>envs\<close> answers.\<close>

fun pages_answered :: "(jv \<Rightarrow> py_error + string) \<Rightarrow> page_env list \<Rightarrow> nat" where
  "pages_answered to_local [] = 0"
| "pages_answered to_local (env # envs) =
     (case coletar_page to_local env of
        PageNext new \<Rightarrow> Suc (pages_answered to_local envs)
      | _ \<Rightarrow> 1)"

definition coletar_itens ::
  "(jv \<Rightarrow> py_error + string) \<Rightarrow> datetime \<Rightarrow> page_env list
     \<Rightarrow> ((string \<times> jv) list list, nat \<times> (string \<times> jv) list list) outcome" where
  "coletar_itens to_local agora envs =
     (case gerar_intervalo agora of
        Inl e \<Rightarrow> Raised e
      | Inr window \<Rightarrow> coletar_loop to_local 1 [] envs)"

text \<open>
  The part of \<^verbatim>\<open>main\<close> after \<^verbatim>\<open>dados = coletar_itens()\<close>: the frame's columns are the keys of
  the records, \<^verbatim>\<open>df.empty\<close> holds without rows or without columns, and
  \<^verbatim>\<open>df[colunas_finais]\<close> raises KeyError when a column is missing.
\<close>

definition main_csv :: "(string \<times> jv) list list \<Rightarrow> py_error + csv_file" where
  "main_csv dados =
     (let columns = concat (map (map fst) dados)
      in if dados = [] \<or> columns = []
         then Inr \<lparr>header = colunas_finais, data_rows = []\<rparr>
         else if list_all (\<lambda>c. c \<in> set columns) colunas_finais
              then Inr \<lparr>header = colunas_finais,
                        data_rows = map (\<lambda>r. map (dict_get r) colunas_finais) dados\<rparr>
              else Inl KeyError)"

text \<open>
  What every collected record satisfies: its keys are the ten columns, in order, and its
  \<^verbatim>\<open>orderId\<close> is true.
\<close>

definition record_ok :: "(string \<times> jv) list \<Rightarrow> bool" where
  "record_ok r = (map fst r = colunas_finais \<and> truthy (dict_get r ''orderId''))"




section \<open>The stopping conditions of the paginated fetcher, as the specification words them\<close>

text \<open>
  Stated for the loop of \<^verbatim>\<open>get_all_sellers\<close> in state \<open>st\<close> receiving the response \<open>r\<close>. The
  entities a page returns are its \<^verbatim>\<open>items\<close> (the elements of the body itself when the body
  is a bare list); an entity is new when it is a dict whose resolved identifier is true and
  has not been seen.
\<close>

definition page_items :: "http_outcome \<Rightarrow> jv list" where
  "page_items r =
     (case fetch_json r of
        Inl e \<Rightarrow> []
      | Inr data \<Rightarrow>
          (case data of
             JDict d \<Rightarrow>
               (case map_of d ''items'' of
                  None \<Rightarrow> []
                | Some v \<Rightarrow> (case py_iter v of Inl e \<Rightarrow> [] | Inr xs \<Rightarrow> xs))
           | JList xs \<Rightarrow> xs
           | _ \<Rightarrow> []))"

definition is_new :: "fetch_state \<Rightarrow> jv \<Rightarrow> bool" where
  "is_new st e = (is_dict e \<and> truthy (entity_id e) \<and> \<not> py_in (entity_id e) (seen_ids st))"

text \<open>(a) the page returns zero items.\<close>

definition spec_zero_items :: "http_outcome \<Rightarrow> bool" where
  "spec_zero_items r = (page_items r = [])"

text \<open>
  (b) the accumulated count has reached the declared running total. \<open>after_page\<close> gives
  the declared total and the length of the accumulated list once the page is taken in.
\<close>

definition after_page :: "fetch_state \<Rightarrow> http_outcome \<Rightarrow> (jv \<times> nat) option" where
  "after_page st r =
     (case fetch_json r of
        Inl e \<Rightarrow> None
      | Inr data \<Rightarrow>
          (case data of
             JDict d \<Rightarrow>
               (case process_page d st of
                  Inl e \<Rightarrow> None
                | Inr (st', n) \<Rightarrow> Some (total_sellers st', length (all_sellers st')))
           | JList xs \<Rightarrow> Some (total_sellers st, length xs)
           | _ \<Rightarrow> Some (total_sellers st, 0)))"

definition spec_total_reached :: "fetch_state \<Rightarrow> http_outcome \<Rightarrow> bool" where
  "spec_total_reached st r =
     (case after_page st r of
        None \<Rightarrow> False
      | Some (declared, count) \<Rightarrow>
          truthy declared
          \<and> (case py_num declared of None \<Rightarrow> False | Some t \<Rightarrow> t \<le> int count))"

text \<open>(c) the page yields zero new (non-duplicate) items.\<close>

definition spec_zero_new :: "fetch_state \<Rightarrow> http_outcome \<Rightarrow> bool" where
  "spec_zero_new st r = (\<not> list_ex (is_new st) (page_items r))"

text \<open>(d) the page request fails at transport level: it raises a \<^verbatim>\<open>RequestException\<close>.\<close>

definition spec_transport_failure :: "http_outcome \<Rightarrow> bool" where
  "spec_transport_failure r =
     (case fetch_json r of Inl e \<Rightarrow> is_request_exception e | Inr v \<Rightarrow> False)"

definition spec_stop :: "fetch_state \<Rightarrow> http_outcome \<Rightarrow> bool" where
  "spec_stop st r =
     (spec_zero_items r \<or> spec_total_reached st r \<or> spec_zero_new st r
      \<or> spec_transport_failure r)"

text \<open>The response has a body that is not a JSON object.\<close>

definition bare_body :: "http_outcome \<Rightarrow> bool" where
  "bare_body r = (case fetch_json r of Inl e \<Rightarrow> False | Inr v \<Rightarrow> \<not> is_dict v)"

section \<open>Theorems\<close>

subsection \<open>Time window\<close>

text \<open>
  C4. With the local time 15:00 on 2024-06-10 (any second and microsecond of that
  minute), the window computed by \<^verbatim>\<open>gerar_intervalo\<close> starts at 2024-06-06 00:00:00 and
  ends at 2024-06-10 23:59:59, both in the same fixed offset.
\<close>

theorem gerar_intervalo_2024_06_10:
  assumes "0 \<le> s" and "s < 60" and "0 \<le> us" and "us < 1000000"
  shows "gerar_intervalo
           \<lparr>year = 2024, month = 6, day = 10, hour = 15, minute = 0, second = s, microsecond = us\<rparr>
         = Inr (\<lparr>year = 2024, month = 6, day = 6, hour = 0, minute = 0, second = 0, microsecond = 0\<rparr>,
                \<lparr>year = 2024, month = 6, day = 10, hour = 23, minute = 59, second = 59, microsecond = 0\<rparr>)"
proof -
  have ord: "ymd2ord 2024 6 10 = 739047"
    by (simp add: ymd2ord_def days_before_year_def days_before_month_def
        DAYS_BEFORE_MONTH_def is_leap_def)
  have ymd: "ord2ymd 739043 = (2024, 6, 6)"
    by (simp add: ord2ymd_def Let_def DAYS_BEFORE_MONTH_def DAYS_IN_MONTH_def)
  have "us div 1000000 = 0"
    using assms by simp
  moreover have "(54000 + s) div 86400 = 0"
    using assms by simp
  ultimately show ?thesis
    by (simp add: gerar_intervalo_def sub_days_def Let_def ord ymd)
qed

theorem gerar_intervalo_2024_06_10_witness:
  "gerar_intervalo
     \<lparr>year = 2024, month = 6, day = 10, hour = 15, minute = 0, second = 0, microsecond = 0\<rparr>
   = Inr (\<lparr>year = 2024, month = 6, day = 6, hour = 0, minute = 0, second = 0, microsecond = 0\<rparr>,
          \<lparr>year = 2024, month = 6, day = 10, hour = 23, minute = 59, second = 59, microsecond = 0\<rparr>)"
  using gerar_intervalo_2024_06_10 [of 0 0] by simp

subsection \<open>Deduplication in \<^verbatim>\<open>get_all_sellers\<close>\<close>

lemma py_eq_sym: "py_eq x y = py_eq y x"
  by (cases x; cases y) auto

lemma py_in_snoc: "py_in x (xs @ [y]) = (py_in x xs \<or> py_eq y x)"
  by (auto simp: py_in_def list_ex_iff)

lemma py_distinct_snoc: "py_distinct (xs @ [x]) = (py_distinct xs \<and> \<not> py_in x xs)"
  by (induction xs) (auto simp: py_in_snoc py_in_def list_ex_iff py_eq_sym)

lemma py_eq_refl: "truthy x \<Longrightarrow> hashable x \<Longrightarrow> py_eq x x"
  by (cases x) auto

lemma py_distinct_distinct:
  "py_distinct xs \<Longrightarrow> list_all (\<lambda>x. truthy x \<and> hashable x) xs \<Longrightarrow> distinct xs"
  by (induction xs) (auto simp: py_in_def list_ex_iff list_all_iff dest: py_eq_refl)

lemma scan_sellers_ok:
  "accepted_ok st \<Longrightarrow> scan_sellers xs st n = Inr (st', n') \<Longrightarrow> accepted_ok st'"
proof (induction xs arbitrary: st n)
  case Nil
  then show ?case by simp
next
  case (Cons x xs)
  show ?case
  proof (cases x)
    case (JDict d)
    let ?i = "seller_id_of d"
    show ?thesis
    proof (cases "truthy ?i \<and> \<not> py_in ?i (seen_ids st)")
      case True
      with Cons.prems JDict have h: "hashable ?i"
        by (auto simp: Let_def split: if_splits)
      let ?st = "st\<lparr>all_sellers := all_sellers st @ [x], seen_ids := seen_ids st @ [?i]\<rparr>"
      have "accepted_ok ?st"
        using Cons.prems(1) True h JDict
        by (auto simp: accepted_ok_def has_id_def py_distinct_snoc)
      moreover have "scan_sellers xs ?st (Suc n) = Inr (st', n')"
        using Cons.prems(2) True h JDict by (simp add: Let_def)
      ultimately show ?thesis by (rule Cons.IH)
    next
      case False
      with Cons.prems JDict have "scan_sellers xs st n = Inr (st', n')"
        by (auto simp: Let_def split: if_splits)
      with Cons.prems(1) show ?thesis by (rule Cons.IH)
    qed
  qed (use Cons in auto)
qed

lemma accepted_ok_total [simp]: "accepted_ok (st\<lparr>total_sellers := t\<rparr>) = accepted_ok st"
  by (simp add: accepted_ok_def)

lemma process_page_ok:
  "accepted_ok st \<Longrightarrow> process_page d st = Inr (st', n) \<Longrightarrow> accepted_ok st'"
  unfolding process_page_def Let_def
  by (auto split: sum.splits if_splits intro: scan_sellers_ok [where st = "st\<lparr>total_sellers := t\<rparr>" for t] scan_sellers_ok [where st = st])

lemma page_step_continue_ok:
  "accepted_ok st \<Longrightarrow> page_step st r = Continue st' \<Longrightarrow> accepted_ok st'"
  unfolding page_step_def
  by (auto split: sum.splits if_splits jv.splits prod.splits dest: process_page_ok)

lemma unique_ids_distinct: "unique_ids xs \<Longrightarrow> distinct (map entity_id xs)"
  unfolding unique_ids_def
  by (rule py_distinct_distinct) (auto simp: list_all_iff has_id_def)

lemma accepted_ok_unique: "accepted_ok st \<Longrightarrow> unique_ids (all_sellers st)"
  by (auto simp: accepted_ok_def unique_ids_def)

lemma page_step_break_ok:
  "accepted_ok st \<Longrightarrow> page_step st r = Break xs \<Longrightarrow>
     unique_ids xs \<or> (\<exists>v. fetch_json r = Inr v \<and> \<not> is_dict v \<and> xs = (case v of JList ys \<Rightarrow> ys | _ \<Rightarrow> []))"
  unfolding page_step_def
  by (auto split: sum.splits if_splits jv.splits prod.splits
      dest: process_page_ok intro: accepted_ok_unique)

lemma fetch_loop_ok:
  "accepted_ok st \<Longrightarrow> fetch_loop st rs = Returned xs \<Longrightarrow>
     unique_ids xs \<or> (\<exists>r \<in> set rs. \<exists>v. fetch_json r = Inr v \<and> \<not> is_dict v \<and> xs = (case v of JList ys \<Rightarrow> ys | _ \<Rightarrow> []))"
proof (induction rs arbitrary: st)
  case Nil
  then show ?case by simp
next
  case (Cons r rs)
  show ?case
  proof (cases "page_step st r")
    case (Break ys)
    with Cons.prems page_step_break_ok [of st r ys] show ?thesis by auto
  next
    case (Continue st')
    with Cons.prems have "accepted_ok st'" "fetch_loop st' rs = Returned xs"
      by (auto dest: page_step_continue_ok)
    from Cons.IH [OF this] show ?thesis by auto
  next
    case (Raise e)
    with Cons.prems show ?thesis by simp
  qed
qed

lemma fetch_loop_pending_ok:
  "accepted_ok st \<Longrightarrow> fetch_loop st rs = Pending st' \<Longrightarrow> accepted_ok st'"
proof (induction rs arbitrary: st)
  case Nil
  then show ?case by simp
next
  case (Cons r rs)
  then show ?case
    by (cases "page_step st r") (auto dest: page_step_continue_ok)
qed

lemma init_ok: "accepted_ok init_state"
  by (simp add: accepted_ok_def init_state_def)

text \<open>
  How far the deduplication reaches: whatever responses \<^verbatim>\<open>get_all_sellers\<close> consumes, the
  list it returns either holds pairwise different resolved identifiers (different under
  Python's \<^verbatim>\<open>==\<close>, hence different values), or it is the body of a response that was a bare
  JSON list; while the loop is still running the accumulated list holds pairwise different
  identifiers.
\<close>

theorem get_all_sellers_unique_ids:
  "(get_all_sellers rs = Returned xs \<longrightarrow>
      (py_distinct (map entity_id xs) \<and> distinct (map entity_id xs))
      \<or> (\<exists>r \<in> set rs. fetch_json r = Inr (JList xs)))
   \<and> (get_all_sellers rs = Pending st \<longrightarrow>
      py_distinct (map entity_id (all_sellers st)) \<and> distinct (map entity_id (all_sellers st)))"
proof (intro conjI impI)
  assume "get_all_sellers rs = Returned xs"
  then have "unique_ids xs \<or> (\<exists>r \<in> set rs. \<exists>v. fetch_json r = Inr v \<and> \<not> is_dict v
      \<and> xs = (case v of JList ys \<Rightarrow> ys | _ \<Rightarrow> []))"
    unfolding get_all_sellers_def by (rule fetch_loop_ok [OF init_ok])
  then show "(py_distinct (map entity_id xs) \<and> distinct (map entity_id xs))
      \<or> (\<exists>r \<in> set rs. fetch_json r = Inr (JList xs))"
  proof
    assume "unique_ids xs"
    then show ?thesis by (simp add: unique_ids_distinct unique_ids_def)
  next
    assume "\<exists>r \<in> set rs. \<exists>v. fetch_json r = Inr v \<and> \<not> is_dict v
      \<and> xs = (case v of JList ys \<Rightarrow> ys | _ \<Rightarrow> [])"
    then obtain r v where r: "r \<in> set rs" "fetch_json r = Inr v" "\<not> is_dict v"
      and xs: "xs = (case v of JList ys \<Rightarrow> ys | _ \<Rightarrow> [])" by blast
    show ?thesis
    proof (cases v)
      case (JList ys)
      with r xs show ?thesis by auto
    qed (use xs in auto)
  qed
next
  assume "get_all_sellers rs = Pending st"
  then have "accepted_ok st"
    unfolding get_all_sellers_def by (rule fetch_loop_pending_ok [OF init_ok])
  then have u: "unique_ids (all_sellers st)" by (rule accepted_ok_unique)
  then show "py_distinct (map entity_id (all_sellers st))" by (simp add: unique_ids_def)
  from u show "distinct (map entity_id (all_sellers st))" by (rule unique_ids_distinct)
qed


theorem get_all_sellers_unique_ids_witness:
  "get_all_sellers
     [Resp 200 (Inr (JDict
        [(''items'', JList [JDict [(''SellerId'', JStr ''a'')],
                             JDict [(''id'', JStr ''a''), (''name'', JStr ''again'')],
                             JDict [(''sellerId'', JInt 7)]]),
         (''paging'', JDict [(''total'', JInt 2)])]))]
     = Returned [JDict [(''SellerId'', JStr ''a'')], JDict [(''sellerId'', JInt 7)]]
   \<and> py_distinct (map entity_id [JDict [(''SellerId'', JStr ''a'')], JDict [(''sellerId'', JInt 7)]])
   \<and> distinct (map entity_id [JDict [(''SellerId'', JStr ''a'')], JDict [(''sellerId'', JInt 7)]])"
  (is "?run \<and> ?d1 \<and> ?d2")
proof -
  have run: ?run by code_simp
  have nb: "\<not> (\<exists>r \<in> set [Resp 200 (Inr (JDict
        [(''items'', JList [JDict [(''SellerId'', JStr ''a'')],
                             JDict [(''id'', JStr ''a''), (''name'', JStr ''again'')],
                             JDict [(''sellerId'', JInt 7)]]),
         (''paging'', JDict [(''total'', JInt 2)])]))].
      fetch_json r = Inr (JList [JDict [(''SellerId'', JStr ''a'')], JDict [(''sellerId'', JInt 7)]]))"
    by (simp add: fetch_json_def)
  from get_all_sellers_unique_ids [THEN conjunct1, rule_format, OF run] nb run
  show ?thesis by blast
qed

text \<open>
  C1. The result of \<^verbatim>\<open>get_all_sellers\<close> is to hold no two entities with the same resolved
  identifier, as its docstring (\<^verbatim>\<open>com paginacao e deduplicacao\<close>) and the comment on
  \<^verbatim>\<open>seen_ids\<close> say. On a response whose body is a bare JSON list the function does not
  keep to it: the \<^verbatim>\<open>else\<close> branch returns the body without consulting \<^verbatim>\<open>seen_ids\<close>, and two
  sellers with the identifier \<^verbatim>\<open>a\<close> are both in the result.
\<close>

theorem get_all_sellers_bare_list_keeps_duplicates:
  "get_all_sellers
     [Resp 200 (Inr (JList [JDict [(''id'', JStr ''a''), (''name'', JStr ''x'')],
                             JDict [(''id'', JStr ''a''), (''name'', JStr ''y'')]]))]
     = Returned [JDict [(''id'', JStr ''a''), (''name'', JStr ''x'')],
                 JDict [(''id'', JStr ''a''), (''name'', JStr ''y'')]]
   \<and> entity_id (JDict [(''id'', JStr ''a''), (''name'', JStr ''x'')]) = JStr ''a''
   \<and> entity_id (JDict [(''id'', JStr ''a''), (''name'', JStr ''y'')]) = JStr ''a''"
  by code_simp

subsection \<open>Detail request of one seller\<close>

text \<open>
  C9. \<^verbatim>\<open>get_seller_details\<close> issues exactly one request, and when that request fails with a
  \<^verbatim>\<open>RequestException\<close> (the call raises, the status is an error status, or requests rejects
  the body as JSON) it does not raise: it returns the empty dict.
\<close>

theorem get_seller_details_never_raises:
  "snd (get_seller_details net n seller_id) = Suc n
   \<and> (fetch_json (net n seller_id) = Inl e \<and> is_request_exception e \<longrightarrow>
        get_seller_details net n seller_id = (Inr (JDict []), Suc n))
   \<and> (net n seller_id = ConnError
        \<or> (\<exists>status body. net n seller_id = Resp status body \<and> 400 \<le> status \<and> status < 600)
        \<or> (\<exists>status. net n seller_id = Resp status (Inl JSONDecodeError)) \<longrightarrow>
        get_seller_details net n seller_id = (Inr (JDict []), Suc n))"
  by (auto simp: get_seller_details_def fetch_json_def)

theorem get_seller_details_never_raises_witness:
  "fetch_json ((\<lambda>n sid. Resp 404 (Inr JNull)) 0 (JStr ''s1'')) = Inl RequestException
   \<and> is_request_exception RequestException
   \<and> get_seller_details (\<lambda>n sid. Resp 404 (Inr JNull)) 0 (JStr ''s1'') = (Inr (JDict []), Suc 0)
   \<and> get_seller_details (\<lambda>n sid. ConnError) 4 (JStr ''s1'') = (Inr (JDict []), Suc 4)"
proof -
  have f: "fetch_json ((\<lambda>n sid. Resp 404 (Inr JNull)) 0 (JStr ''s1'')) = Inl RequestException"
    by (simp add: fetch_json_def)
  have r: "is_request_exception RequestException" by simp
  from get_seller_details_never_raises
         [of "\<lambda>n sid. Resp 404 (Inr JNull)" 0 "JStr ''s1''" RequestException,
          THEN conjunct2, THEN conjunct1] f r
  have a: "get_seller_details (\<lambda>n sid. Resp 404 (Inr JNull)) 0 (JStr ''s1'')
      = (Inr (JDict []), Suc 0)" by blast
  from get_seller_details_never_raises
         [of "\<lambda>n sid. ConnError" 4 "JStr ''s1''", THEN conjunct2, THEN conjunct2]
  have "get_seller_details (\<lambda>n sid. ConnError) 4 (JStr ''s1'') = (Inr (JDict []), Suc 4)"
    by simp
  with f r a show ?thesis by blast
qed

subsection \<open>Records collected by \<^verbatim>\<open>coletar_itens\<close>\<close>

lemma item_records_ok:
  "truthy order_id \<Longrightarrow> item_records creation order_id stamp j items = Inr rs \<Longrightarrow>
     list_all record_ok rs"
proof (induction items arbitrary: j rs)
  case Nil
  then show ?case by simp
next
  case (Cons item items)
  from Cons.prems(2) obtain d others where
    "item = JDict d" "item_records creation order_id stamp (Suc j) items = Inr others"
    and rs: "rs = [(''creationDate'', creation), (''orderId'', order_id),
         (''additionalInfo_categories'',
            (case map_of d ''additionalInfo'' of None \<Rightarrow> JNull
             | Some info \<Rightarrow> (case info of JDict i \<Rightarrow> dict_get i ''categories'' | _ \<Rightarrow> JNull))),
         (''name'', dict_get d ''name''), (''price'', dict_get d ''price''),
         (''listPrice'', dict_get d ''listPrice''), (''quantity'', dict_get d ''quantity''),
         (''productId'', dict_get d ''productId''), (''seller'', dict_get d ''seller''),
         (''data_extracao'', JStr (stamp j))] # others \<or> True"
    by (auto split: sum.splits jv.splits)
  with Cons show ?case
    by (auto split: sum.splits jv.splits simp: record_ok_def colunas_finais_def dict_get_def)
qed

lemma collect_orders_ok:
  "collect_orders to_local env i xs = Inr rs \<Longrightarrow> list_all record_ok rs"
proof (induction xs arbitrary: i rs)
  case Nil
  then show ?case by simp
next
  case (Cons resumo xs)
  then show ?case
    by (auto split: sum.splits if_splits simp: Let_def dest: item_records_ok)
qed

lemma coletar_page_ok:
  "coletar_page to_local env = PageNext new \<Longrightarrow> list_all record_ok new"
  by (auto simp: coletar_page_def split: http_outcome.splits if_splits option.splits sum.splits
      dest: collect_orders_ok)

lemma coletar_loop_ok:
  "list_all record_ok regs \<Longrightarrow>
     (coletar_loop to_local p regs envs = Returned out \<longrightarrow> list_all record_ok out)
     \<and> (coletar_loop to_local p regs envs = Pending (q, out) \<longrightarrow> list_all record_ok out)"
proof (induction envs arbitrary: p regs)
  case Nil
  then show ?case by auto
next
  case (Cons env envs)
  show ?case
  proof (cases "coletar_page to_local env")
    case PageBreak
    with Cons.prems show ?thesis by auto
  next
    case (PageNext new)
    then have "list_all record_ok (regs @ new)"
      using Cons.prems coletar_page_ok by simp
    from Cons.IH [OF this] PageNext show ?thesis by simp
  next
    case (PageRaise e)
    then show ?thesis by simp
  qed
qed

lemma lookup_own_keys:
  "distinct (map fst r) \<Longrightarrow> map (dict_get r) (map fst r) = map snd r"
proof (induction r)
  case Nil
  then show ?case by simp
next
  case (Cons kv r)
  have "\<forall>k \<in> set (map fst r). dict_get (kv # r) k = dict_get r k"
    using Cons.prems by (cases kv) (force simp: dict_get_def)
  then have "map (dict_get (kv # r)) (map fst r) = map (dict_get r) (map fst r)"
    by (simp only: map_eq_conv)
  with Cons show ?case by (simp add: dict_get_def)
qed

lemma distinct_colunas: "distinct colunas_finais"
  by (simp add: colunas_finais_def)

lemma main_csv_ok:
  assumes "list_all record_ok regs"
  shows "main_csv regs = Inr \<lparr>header = colunas_finais, data_rows = map (map snd) regs\<rparr>"
proof (cases regs)
  case Nil
  then show ?thesis by (simp add: main_csv_def)
next
  case (Cons r rest)
  from assms have keys: "\<forall>x \<in> set regs. map fst x = colunas_finais"
    by (simp add: list_all_iff record_ok_def)
  have rows: "map (\<lambda>x. map (dict_get x) colunas_finais) regs = map (map snd) regs"
  proof (rule map_cong [OF refl])
    fix x assume "x \<in> set regs"
    with keys have k: "map fst x = colunas_finais" by simp
    with lookup_own_keys [of x] distinct_colunas
    show "map (dict_get x) colunas_finais = map snd x" by simp
  qed
  from keys Cons have r: "map fst r = colunas_finais" by simp
  then have "set colunas_finais \<subseteq> set (concat (map (map fst) regs))"
    using Cons by auto
  moreover have "colunas_finais \<noteq> []" by (simp add: colunas_finais_def)
  ultimately show ?thesis
    using Cons r rows by (auto simp: main_csv_def Let_def list_all_iff)
qed


text \<open>
  C10. Every record collected by \<^verbatim>\<open>coletar_itens\<close> has exactly the ten keys of
  \<^verbatim>\<open>colunas_finais\<close>, in that order, so the projection \<^verbatim>\<open>df[colunas_finais]\<close> in \<^verbatim>\<open>main\<close> never
  raises KeyError: the file has the ten columns and one line per record, holding the
  record's values.
\<close>

theorem coletar_itens_records_have_columns:
  "(coletar_itens to_local agora envs = Returned regs \<longrightarrow>
      list_all (\<lambda>r. map fst r = colunas_finais) regs
      \<and> main_csv regs = Inr \<lparr>header = colunas_finais, data_rows = map (map snd) regs\<rparr>)
   \<and> (coletar_itens to_local agora envs = Pending (p, regs) \<longrightarrow>
      list_all (\<lambda>r. map fst r = colunas_finais) regs)"
proof -
  have keys: "list_all (\<lambda>r. map fst r = colunas_finais) xs" if "list_all record_ok xs" for xs
    using that by (simp add: list_all_iff record_ok_def)
  have "list_all record_ok regs"
    if "coletar_itens to_local agora envs = Returned regs
        \<or> coletar_itens to_local agora envs = Pending (p, regs)"
    using that coletar_loop_ok [of "[]" to_local 1 envs regs p]
    by (auto simp: coletar_itens_def split: sum.splits)
  then show ?thesis
    using keys main_csv_ok by blast
qed

theorem coletar_itens_records_have_columns_witness:
  "coletar_itens (\<lambda>v. Inr ''2024-06-09 21:00:00'')
     \<lparr>year = 2024, month = 6, day = 10, hour = 15, minute = 0, second = 0, microsecond = 0\<rparr>
     [\<lparr>page_resp = Resp 200 (Inr (JDict [(''list'', JList [JDict [(''orderId'', JStr ''o-1'')]])])),
       det_resp = (\<lambda>i k. Resp 200 (Inr (JDict
          [(''creationDate'', JStr ''2024-06-10T00:00:00Z''),
           (''items'', JList [JDict [(''name'', JStr ''pen''), (''quantity'', JInt 2)]])]))),
       clock = (\<lambda>i j. ''2024-06-10 15:00:01'')\<rparr>,
      \<lparr>page_resp = Resp 200 (Inr (JDict [(''list'', JList [])])),
       det_resp = (\<lambda>i k. ConnError), clock = (\<lambda>i j. [])\<rparr>]
   = Returned
      [[(''creationDate'', JStr ''2024-06-09 21:00:00''), (''orderId'', JStr ''o-1''),
        (''additionalInfo_categories'', JNull), (''name'', JStr ''pen''), (''price'', JNull),
        (''listPrice'', JNull), (''quantity'', JInt 2), (''productId'', JNull),
        (''seller'', JNull), (''data_extracao'', JStr ''2024-06-10 15:00:01'')]]
   \<and> main_csv
      [[(''creationDate'', JStr ''2024-06-09 21:00:00''), (''orderId'', JStr ''o-1''),
        (''additionalInfo_categories'', JNull), (''name'', JStr ''pen''), (''price'', JNull),
        (''listPrice'', JNull), (''quantity'', JInt 2), (''productId'', JNull),
        (''seller'', JNull), (''data_extracao'', JStr ''2024-06-10 15:00:01'')]]
     = Inr \<lparr>header = colunas_finais,
            data_rows = [[JStr ''2024-06-09 21:00:00'', JStr ''o-1'', JNull, JStr ''pen'', JNull,
                          JNull, JInt 2, JNull, JNull, JStr ''2024-06-10 15:00:01'']]\<rparr>"
  (is "?run \<and> ?csv")
proof -
  have run: ?run by code_simp
  from coletar_itens_records_have_columns [THEN conjunct1, rule_format, OF run]
  have ?csv by simp
  with run show ?thesis by blast
qed

subsection \<open>Entities without identifier\<close>

text \<open>
  C6 (amended). While \<^verbatim>\<open>get_all_sellers\<close> processes responses that are JSON objects, an
  entity is added to the accumulated list only if it is a dict whose resolved identifier is
  true: the list returned holds such entities only, unless it is, unchanged, the body of a
  response that was a bare JSON list. In \<^verbatim>\<open>coletar_itens\<close> every collected record carries a
  true \<^verbatim>\<open>orderId\<close>: an order summary without one contributes nothing.
\<close>

theorem accumulated_entities_have_id:
  "(get_all_sellers rs = Returned xs \<longrightarrow>
      list_all (\<lambda>s. is_dict s \<and> truthy (entity_id s)) xs
      \<or> (\<exists>r \<in> set rs. fetch_json r = Inr (JList xs)))
   \<and> (get_all_sellers rs = Pending st \<longrightarrow>
      list_all (\<lambda>s. is_dict s \<and> truthy (entity_id s)) (all_sellers st))
   \<and> (coletar_itens to_local agora envs = Returned regs \<longrightarrow>
      list_all (\<lambda>r. truthy (dict_get r ''orderId'')) regs)"
proof (intro conjI impI)
  have weaken: "list_all (\<lambda>s. is_dict s \<and> truthy (entity_id s)) ys" if "unique_ids ys" for ys
    using that by (simp add: unique_ids_def list_all_iff has_id_def)
  {
    assume "get_all_sellers rs = Returned xs"
    then have "unique_ids xs \<or> (\<exists>r \<in> set rs. \<exists>v. fetch_json r = Inr v \<and> \<not> is_dict v
        \<and> xs = (case v of JList ys \<Rightarrow> ys | _ \<Rightarrow> []))"
      unfolding get_all_sellers_def by (rule fetch_loop_ok [OF init_ok])
    then show "list_all (\<lambda>s. is_dict s \<and> truthy (entity_id s)) xs
        \<or> (\<exists>r \<in> set rs. fetch_json r = Inr (JList xs))"
    proof
      assume "unique_ids xs"
      then show ?thesis by (simp add: weaken)
    next
      assume "\<exists>r \<in> set rs. \<exists>v. fetch_json r = Inr v \<and> \<not> is_dict v
        \<and> xs = (case v of JList ys \<Rightarrow> ys | _ \<Rightarrow> [])"
      then obtain r v where r: "r \<in> set rs" "fetch_json r = Inr v" "\<not> is_dict v"
        and xs: "xs = (case v of JList ys \<Rightarrow> ys | _ \<Rightarrow> [])" by blast
      show ?thesis
      proof (cases v)
        case (JList ys)
        with r xs show ?thesis by auto
      qed (use xs in auto)
    qed
  }
  {
    assume "get_all_sellers rs = Pending st"
    then have "accepted_ok st"
      unfolding get_all_sellers_def by (rule fetch_loop_pending_ok [OF init_ok])
    then show "list_all (\<lambda>s. is_dict s \<and> truthy (entity_id s)) (all_sellers st)"
      by (intro weaken accepted_ok_unique)
  }
  {
    assume "coletar_itens to_local agora envs = Returned regs"
    then have "list_all record_ok regs"
      using coletar_loop_ok [of "[]" to_local 1 envs regs]
      by (auto simp: coletar_itens_def split: sum.splits)
    then show "list_all (\<lambda>r. truthy (dict_get r ''orderId'')) regs"
      by (simp add: list_all_iff record_ok_def)
  }
qed

theorem accumulated_entities_have_id_witness:
  "get_all_sellers
     [Resp 200 (Inr (JDict
        [(''items'', JList [JDict [(''name'', JStr ''nameless'')],
                             JDict [(''id'', JStr []), (''sellerId'', JNull)],
                             JStr ''text'',
                             JDict [(''id'', JStr ''b'')]])])),
      ConnError]
     = Returned [JDict [(''id'', JStr ''b'')]]
   \<and> list_all (\<lambda>s. is_dict s \<and> truthy (entity_id s)) [JDict [(''id'', JStr ''b'')]]
   \<and> coletar_itens (\<lambda>v. Inr [])
       \<lparr>year = 2024, month = 6, day = 10, hour = 15, minute = 0, second = 0, microsecond = 0\<rparr>
       [\<lparr>page_resp = Resp 200 (Inr (JDict
            [(''list'', JList [JDict [(''status'', JStr ''no order id'')],
                                JDict [(''orderId'', JStr ''o-2'')]])])),
         det_resp = (\<lambda>i k. Resp 200 (Inr (JDict [(''items'', JList [JDict []])]))),
         clock = (\<lambda>i j. [])\<rparr>,
        \<lparr>page_resp = Resp 500 (Inl JSONDecodeError), det_resp = (\<lambda>i k. ConnError), clock = (\<lambda>i j. [])\<rparr>]
     = Returned
        [[(''creationDate'', JNull), (''orderId'', JStr ''o-2''),
          (''additionalInfo_categories'', JNull), (''name'', JNull), (''price'', JNull),
          (''listPrice'', JNull), (''quantity'', JNull), (''productId'', JNull),
          (''seller'', JNull), (''data_extracao'', JStr [])]]
   \<and> list_all (\<lambda>r. truthy (dict_get r ''orderId''))
        [[(''creationDate'', JNull), (''orderId'', JStr ''o-2''),
          (''additionalInfo_categories'', JNull), (''name'', JNull), (''price'', JNull),
          (''listPrice'', JNull), (''quantity'', JNull), (''productId'', JNull),
          (''seller'', JNull), (''data_extracao'', JStr [])]]"
  (is "?run \<and> ?ids \<and> ?col \<and> ?oid")
proof -
  have run: ?run by code_simp
  have col: ?col by code_simp
  have nb: "\<not> (\<exists>r \<in> set [Resp 200 (Inr (JDict
        [(''items'', JList [JDict [(''name'', JStr ''nameless'')],
                             JDict [(''id'', JStr []), (''sellerId'', JNull)],
                             JStr ''text'',
                             JDict [(''id'', JStr ''b'')]])])),
      ConnError]. fetch_json r = Inr (JList [JDict [(''id'', JStr ''b'')]]))"
    by (simp add: fetch_json_def)
  from accumulated_entities_have_id [THEN conjunct1, rule_format, OF run] nb
  have ids: ?ids by blast
  from accumulated_entities_have_id [THEN conjunct2, THEN conjunct2, rule_format, OF col]
  have ?oid .
  with run ids col show ?thesis by blast
qed

theorem entity_without_id_counterexample:
  "get_all_sellers [Resp 200 (Inr (JList [JDict [(''name'', JStr ''nameless'')]]))]
     = Returned [JDict [(''name'', JStr ''nameless'')]]
   \<and> entity_id (JDict [(''name'', JStr ''nameless'')]) = JNull
   \<and> \<not> truthy (entity_id (JDict [(''name'', JStr ''nameless'')]))"
  by code_simp

subsection \<open>Failed detail requests\<close>








subsection \<open>Empty input\<close>

text \<open>
  C3 (amended). For no records, \<^verbatim>\<open>main\<close> of pedidos\_itens.py writes a file that consists of
  the header alone, with the ten columns of \<^verbatim>\<open>colunas_finais\<close> in their declared order. For
  an empty list of sellers, \<^verbatim>\<open>export_to_csv\<close> of lista\_sellers.py writes no file at all, and
  so does \<^verbatim>\<open>export_sellers\<close> when the fetch returns no seller.
\<close>

theorem empty_input_csv:
  "main_csv [] = Inr \<lparr>header =
       [''creationDate'', ''orderId'', ''additionalInfo_categories'', ''name'', ''price'',
        ''listPrice'', ''quantity'', ''productId'', ''seller'', ''data_extracao''],
       data_rows = []\<rparr>
   \<and> export_to_csv dumps set_order [] = None
   \<and> (get_all_sellers rs = Returned [] \<longrightarrow>
        export_sellers dumps set_order rs net include_details = Returned None)"
  by (simp add: main_csv_def colunas_finais_def export_to_csv_def export_sellers_def)

theorem empty_input_csv_witness:
  "get_all_sellers [Resp 200 (Inr (JDict [(''items'', JList [])]))] = Returned []
   \<and> export_sellers (\<lambda>v. []) (\<lambda>ks. ks) [Resp 200 (Inr (JDict [(''items'', JList [])]))]
        (\<lambda>k sid. ConnError) True = Returned None"
  (is "?run \<and> ?none")
proof -
  have run: ?run by code_simp
  from empty_input_csv [THEN conjunct2, THEN conjunct2, rule_format, OF run]
  have ?none .
  with run show ?thesis by blast
qed

theorem export_to_csv_empty_counterexample:
  "export_to_csv (\<lambda>v. []) (\<lambda>ks. ks) [] = None
   \<and> export_to_csv (\<lambda>v. []) (\<lambda>ks. ks) [] \<noteq> Some \<lparr>header = fieldnames0, data_rows = []\<rparr>"
  by (simp add: export_to_csv_def)

subsection \<open>Row normalizer\<close>

lemma target_key_id: "target_key k = ''id'' \<longleftrightarrow> k = ''SellerId'' \<or> k = ''id''"
  by (auto simp: target_key_def field_mapping_def)

lemma fill_row_append:
  "fill_row dumps (xs @ ys) row = fill_row dumps ys (fill_row dumps xs row)"
  by (induction xs arbitrary: row) auto

lemma fill_row_untouched:
  "\<forall>kv \<in> set kvs. target_key (fst kv) \<noteq> c \<Longrightarrow> fill_row dumps kvs row c = row c"
  by (induction kvs arbitrary: row) auto

lemma fill_row_last:
  assumes "seller = pre @ (k, v) # post"
    and "\<forall>kv \<in> set post. target_key (fst kv) \<noteq> target_key k"
  shows "fill_row dumps seller row (target_key k) = Some (convert_value dumps v)"
  using assms by (simp add: fill_row_append fill_row_untouched)

lemma fill_row_origin:
  "fill_row dumps kvs row c = Some x \<Longrightarrow>
     row c = Some x \<or> (\<exists>kv \<in> set kvs. target_key (fst kv) = c \<and> x = convert_value dumps (snd kv))"
proof (induction kvs arbitrary: row)
  case Nil
  then show ?case by simp
next
  case (Cons kv kvs)
  obtain k v where kv: "kv = (k, v)" by (cases kv)
  from Cons.prems kv
  have "fill_row dumps kvs (row(target_key k \<mapsto> convert_value dumps v)) c = Some x" by simp
  from Cons.IH [OF this] kv show ?case by (auto split: if_splits)
qed

lemma fill_row_covers:
  "kv \<in> set kvs \<Longrightarrow> fill_row dumps kvs row (target_key (fst kv)) \<noteq> None"
proof -
  assume "kv \<in> set kvs"
  then have "\<exists>x \<in> set kvs. target_key (fst x) = target_key (fst kv)" by blast
  from split_list_last_prop [OF this] obtain pre x post where
    "kvs = pre @ x # post" "target_key (fst x) = target_key (fst kv)"
    "\<forall>z \<in> set post. target_key (fst z) \<noteq> target_key (fst kv)" by blast
  with fill_row_last [of kvs pre "fst x" "snd x" post dumps row] show ?thesis by simp
qed

lemma normalize_row_fill: "normalize_row dumps seller = fill_row dumps seller Map.empty"
proof (cases "map_of seller ''SellerId''")
  case None
  then show ?thesis by (simp add: normalize_row_def)
next
  case (Some v)
  then have "(''SellerId'', v) \<in> set seller" by (rule map_of_SomeD)
  from fill_row_covers [OF this, of dumps Map.empty]
  have "fill_row dumps seller Map.empty ''id'' \<noteq> None"
    using target_key_id [of "''SellerId''"] by simp
  with Some show ?thesis by (auto simp: normalize_row_def Let_def)
qed

text \<open>
  C8 (amended). A field of the entity that no later field of the same entity maps to the
  same column appears in the row, under its target column, as the JSON text of its value
  when the value is a list or a dict and as the value itself otherwise; and every cell of
  the row is obtained in that way from some field of the entity. (A field followed by
  another one with the same target column is overwritten by it.)
\<close>

theorem normalize_row_values:
  "(seller = pre @ (k, v) # post \<and> (\<forall>kv \<in> set post. target_key (fst kv) \<noteq> target_key k) \<longrightarrow>
      normalize_row dumps seller (target_key k)
      = Some (if is_nested v then JStr (dumps v) else v))
   \<and> (normalize_row dumps seller c = Some x \<longrightarrow>
      (\<exists>kv \<in> set seller. target_key (fst kv) = c
         \<and> x = (if is_nested (snd kv) then JStr (dumps (snd kv)) else snd kv)))"
proof (intro conjI impI)
  assume "seller = pre @ (k, v) # post \<and> (\<forall>kv \<in> set post. target_key (fst kv) \<noteq> target_key k)"
  then show "normalize_row dumps seller (target_key k)
      = Some (if is_nested v then JStr (dumps v) else v)"
    using fill_row_last [of seller pre k v post dumps Map.empty]
    by (simp add: normalize_row_fill convert_value_def)
next
  assume "normalize_row dumps seller c = Some x"
  then have "fill_row dumps seller Map.empty c = Some x" by (simp add: normalize_row_fill)
  from fill_row_origin [OF this]
  show "\<exists>kv \<in> set seller. target_key (fst kv) = c
         \<and> x = (if is_nested (snd kv) then JStr (dumps (snd kv)) else snd kv)"
    by (simp add: convert_value_def)
qed

theorem normalize_row_values_witness:
  "normalize_row (\<lambda>v. ''[1, 2]'')
     [(''Name'', JStr ''Loja''), (''channel'', JList [JInt 1, JInt 2]), (''isActive'', JBool True)]
     (target_key ''channel'') = Some (JStr ''[1, 2]'')
   \<and> normalize_row (\<lambda>v. ''[1, 2]'')
     [(''Name'', JStr ''Loja''), (''channel'', JList [JInt 1, JInt 2]), (''isActive'', JBool True)]
     (target_key ''Name'') = Some (JStr ''Loja'')"
  (is "?nested \<and> ?plain")
proof -
  have t: "target_key ''isActive'' \<noteq> target_key ''channel''"
    "target_key ''channel'' \<noteq> target_key ''Name''" "target_key ''isActive'' \<noteq> target_key ''Name''"
    by (simp_all add: target_key_def field_mapping_def)
  from normalize_row_values [THEN conjunct1, rule_format,
      of "[(''Name'', JStr ''Loja''), (''channel'', JList [JInt 1, JInt 2]), (''isActive'', JBool True)]"
         "[(''Name'', JStr ''Loja'')]" "''channel''" "JList [JInt 1, JInt 2]"
         "[(''isActive'', JBool True)]" "\<lambda>v. ''[1, 2]''"] t
  have n: ?nested by simp
  from normalize_row_values [THEN conjunct1, rule_format,
      of "[(''Name'', JStr ''Loja''), (''channel'', JList [JInt 1, JInt 2]), (''isActive'', JBool True)]"
         "[]" "''Name''" "JStr ''Loja''"
         "[(''channel'', JList [JInt 1, JInt 2]), (''isActive'', JBool True)]" "\<lambda>v. ''[1, 2]''"] t
  have ?plain by simp
  with n show ?thesis by blast
qed

theorem normalize_row_overwrite_counterexample:
  "normalize_row (\<lambda>v. ''[1, 2]'') [(''Name'', JList [JInt 1, JInt 2]), (''name'', JStr ''Loja'')]
     = [''name'' \<mapsto> JStr ''Loja'']
   \<and> normalize_row (\<lambda>v. ''[1, 2]'') [(''name'', JStr ''Loja''), (''Name'', JList [JInt 1, JInt 2])]
     = [''name'' \<mapsto> JStr ''[1, 2]'']"
  by (simp add: normalize_row_def target_key_def field_mapping_def convert_value_def)


text \<open>
  C5 (amended). For every entity in which \<^verbatim>\<open>SellerId\<close> or \<^verbatim>\<open>id\<close> is present, the row has an
  \<^verbatim>\<open>id\<close> field, and it holds the value (the JSON text, for a list or a dict) of whichever
  of the two fields comes last in the entity. It is therefore non-empty when the values of
  the variants present are non-empty scalars; an empty value in the later variant gives
  an empty \<^verbatim>\<open>id\<close>.
\<close>

theorem normalize_row_id:
  "((map_of seller ''SellerId'' \<noteq> None \<or> map_of seller ''id'' \<noteq> None) \<longrightarrow>
      normalize_row dumps seller ''id'' \<noteq> None)
   \<and> (seller = pre @ (k, v) # post \<and> (k = ''SellerId'' \<or> k = ''id'')
        \<and> (\<forall>kv \<in> set post. fst kv \<noteq> ''SellerId'' \<and> fst kv \<noteq> ''id'') \<longrightarrow>
      normalize_row dumps seller ''id'' = Some (if is_nested v then JStr (dumps v) else v))
   \<and> ((map_of seller ''SellerId'' \<noteq> None \<or> map_of seller ''id'' \<noteq> None)
        \<and> (\<forall>kv \<in> set seller. fst kv = ''SellerId'' \<or> fst kv = ''id'' \<longrightarrow>
               truthy (snd kv) \<and> \<not> is_nested (snd kv)) \<longrightarrow>
      (\<exists>x. normalize_row dumps seller ''id'' = Some x \<and> truthy x))"
proof (intro conjI impI)
  have last: "normalize_row dumps s ''id'' = Some (convert_value dumps b)"
    if "s = p @ (a, b) # q" "a = ''SellerId'' \<or> a = ''id''"
       "\<forall>kv \<in> set q. fst kv \<noteq> ''SellerId'' \<and> fst kv \<noteq> ''id''" for s p a b q
  proof -
    from that(2) have ta: "target_key a = ''id''" by (simp add: target_key_id)
    from that(3) have "\<forall>kv \<in> set q. target_key (fst kv) \<noteq> ''id''"
      by (simp add: target_key_id)
    with ta have "target_key a = ''id''" "\<forall>kv \<in> set q. target_key (fst kv) \<noteq> target_key a"
      by simp_all
    with fill_row_last [of s p a b q dumps Map.empty] that(1)
    show ?thesis by (simp add: normalize_row_fill)
  qed
  have decompose: "\<exists>p a b q. seller = p @ (a, b) # q \<and> (a = ''SellerId'' \<or> a = ''id'')
      \<and> (\<forall>kv \<in> set q. fst kv \<noteq> ''SellerId'' \<and> fst kv \<noteq> ''id'')"
    if "map_of seller ''SellerId'' \<noteq> None \<or> map_of seller ''id'' \<noteq> None"
  proof -
    from that have "\<exists>kv \<in> set seller. fst kv = ''SellerId'' \<or> fst kv = ''id''"
      by (force dest: map_of_SomeD)
    from split_list_last_prop [OF this] obtain p x q where
      "seller = p @ x # q" "fst x = ''SellerId'' \<or> fst x = ''id''"
      "\<forall>z \<in> set q. \<not> (fst z = ''SellerId'' \<or> fst z = ''id'')" by blast
    then show ?thesis by (cases x) auto
  qed
  {
    assume "map_of seller ''SellerId'' \<noteq> None \<or> map_of seller ''id'' \<noteq> None"
    from decompose [OF this] last show "normalize_row dumps seller ''id'' \<noteq> None"
      by fastforce
  }
  {
    assume "seller = pre @ (k, v) # post \<and> (k = ''SellerId'' \<or> k = ''id'')
        \<and> (\<forall>kv \<in> set post. fst kv \<noteq> ''SellerId'' \<and> fst kv \<noteq> ''id'')"
    then show "normalize_row dumps seller ''id'' = Some (if is_nested v then JStr (dumps v) else v)"
      using last [of seller pre k v post] by (simp add: convert_value_def)
  }
  {
    assume a: "(map_of seller ''SellerId'' \<noteq> None \<or> map_of seller ''id'' \<noteq> None)
        \<and> (\<forall>kv \<in> set seller. fst kv = ''SellerId'' \<or> fst kv = ''id'' \<longrightarrow>
               truthy (snd kv) \<and> \<not> is_nested (snd kv))"
    with decompose obtain p a' b q where d: "seller = p @ (a', b) # q"
      "a' = ''SellerId'' \<or> a' = ''id''"
      "\<forall>kv \<in> set q. fst kv \<noteq> ''SellerId'' \<and> fst kv \<noteq> ''id''" by blast
    with a have "truthy b \<and> \<not> is_nested b" by auto
    with last [OF d] show "\<exists>x. normalize_row dumps seller ''id'' = Some x \<and> truthy x"
      by (simp add: convert_value_def)
  }
qed

theorem normalize_row_id_witness:
  "normalize_row (\<lambda>v. []) [(''SellerId'', JStr ''A1''), (''Name'', JStr ''Loja'')] ''id''
     = Some (JStr ''A1'')
   \<and> normalize_row (\<lambda>v. []) [(''SellerId'', JStr ''A1''), (''Name'', JStr ''Loja'')] ''id'' \<noteq> None
   \<and> (\<exists>x. normalize_row (\<lambda>v. []) [(''SellerId'', JStr ''A1''), (''Name'', JStr ''Loja'')] ''id''
          = Some x \<and> truthy x)"
  (is "?val \<and> ?present \<and> ?nonempty")
proof -
  note t = normalize_row_id [of "[(''SellerId'', JStr ''A1''), (''Name'', JStr ''Loja'')]" "\<lambda>v. []"
      "[]" "''SellerId''" "JStr ''A1''" "[(''Name'', JStr ''Loja'')]"]
  from t [THEN conjunct2, THEN conjunct1] have v: ?val by simp
  from t [THEN conjunct1] have p: ?present by simp
  from t [THEN conjunct2, THEN conjunct2] have ?nonempty by simp
  with v p show ?thesis by blast
qed

theorem normalize_row_empty_id_counterexample:
  "normalize_row (\<lambda>v. []) [(''SellerId'', JStr ''A1''), (''id'', JStr [])] ''id'' = Some (JStr [])
   \<and> \<not> truthy (JStr [])
   \<and> map_of [(''SellerId'', JStr ''A1''), (''id'', JStr [])] ''SellerId'' = Some (JStr ''A1'')"
  by (simp add: normalize_row_def target_key_def field_mapping_def convert_value_def)

subsection \<open>Stopping of the page loops\<close>

lemma is_new_total [simp]: "is_new (st\<lparr>total_sellers := t\<rparr>) = is_new st"
  by (simp add: is_new_def fun_eq_iff)

lemma scan_sellers_seen:
  "scan_sellers xs st n = Inr (st', n') \<Longrightarrow> n \<le> n'"
proof (induction xs arbitrary: st n)
  case Nil
  then show ?case by simp
next
  case (Cons x xs)
  show ?case
  proof (cases "\<exists>d. x = JDict d \<and> truthy (seller_id_of d) \<and> \<not> py_in (seller_id_of d) (seen_ids st)")
    case True
    then obtain d where d: "x = JDict d" "truthy (seller_id_of d)"
      "\<not> py_in (seller_id_of d) (seen_ids st)" by blast
    with Cons.prems have
      "scan_sellers xs (st\<lparr>all_sellers := all_sellers st @ [x],
          seen_ids := seen_ids st @ [seller_id_of d]\<rparr>) (Suc n) = Inr (st', n')"
      by (auto simp: Let_def split: if_splits)
    from Cons.IH [OF this] show ?thesis by simp
  next
    case False
    with Cons.prems have "scan_sellers xs st n = Inr (st', n')"
      by (cases x) (auto simp: Let_def split: if_splits)
    then show ?thesis by (rule Cons.IH)
  qed
qed

lemma scan_sellers_count:
  "scan_sellers xs st n = Inr (st', n') \<Longrightarrow> (n' = n) = (\<not> list_ex (is_new st) xs)"
proof (induction xs arbitrary: st n)
  case Nil
  then show ?case by auto
next
  case (Cons x xs)
  show ?case
  proof (cases "is_new st x")
    case True
    then obtain d where d: "x = JDict d" by (cases x) (auto simp: is_new_def)
    with True Cons.prems have
      "scan_sellers xs (st\<lparr>all_sellers := all_sellers st @ [x],
          seen_ids := seen_ids st @ [seller_id_of d]\<rparr>) (Suc n) = Inr (st', n')"
      by (auto simp: is_new_def Let_def split: if_splits)
    then have "Suc n \<le> n'" by (rule scan_sellers_seen)
    with True show ?thesis by simp
  next
    case False
    with Cons.prems have "scan_sellers xs st n = Inr (st', n')"
      by (cases x) (auto simp: is_new_def Let_def split: if_splits)
    from Cons.IH [OF this] False show ?thesis by simp
  qed
qed

lemma falsy_iter: "\<not> truthy v \<Longrightarrow> (case py_iter v of Inl e \<Rightarrow> [] | Inr xs \<Rightarrow> xs) = []"
  by (cases v) auto

lemma process_page_new:
  assumes "fetch_json r = Inr (JDict d)" and "process_page d st = Inr (st', n)"
  shows "(n = 0) = spec_zero_new st r" and "spec_zero_items r \<longrightarrow> n = 0"
proof -
  let ?sellers = "case map_of d ''items'' of None \<Rightarrow> JList [] | Some v \<Rightarrow> v"
  have items: "page_items r = (case py_iter ?sellers of Inl e \<Rightarrow> [] | Inr xs \<Rightarrow> xs)"
    using assms(1) by (simp add: page_items_def split: option.splits)
  show "(n = 0) = spec_zero_new st r"
  proof (cases "truthy ?sellers")
    case False
    with assms(2) have "n = 0"
      by (auto simp: process_page_def Let_def split: sum.splits if_splits)
    moreover from False items have "page_items r = []" by (simp add: falsy_iter)
    ultimately show ?thesis by (simp add: spec_zero_new_def)
  next
    case True
    with assms(2) obtain xs t where xs: "py_iter ?sellers = Inr xs"
      and scan: "scan_sellers xs (st\<lparr>total_sellers := t\<rparr>) 0 = Inr (st', n)"
      by (auto simp: process_page_def Let_def split: sum.splits if_splits)
    from scan_sellers_count [OF scan] xs items show ?thesis
      by (auto simp: spec_zero_new_def)
  qed
  then show "spec_zero_items r \<longrightarrow> n = 0"
    by (simp add: spec_zero_items_def spec_zero_new_def)
qed

lemma should_stop_iff:
  assumes "should_stop st n = Inr stop"
  shows "stop = ((truthy (total_sellers st)
           \<and> (case py_num (total_sellers st) of None \<Rightarrow> False
               | Some t \<Rightarrow> t \<le> int (length (all_sellers st))))
          \<or> n = 0)"
  using assms
  by (cases "total_sellers st") (auto simp: should_stop_def split: if_splits sum.splits)

lemma dict_page_stop:
  assumes "fetch_json r = Inr (JDict d)" and "process_page d st = Inr (st', n)"
    and "should_stop st' n = Inr stop"
  shows "stop = spec_stop st r"
proof -
  have "spec_total_reached st r = (truthy (total_sellers st')
           \<and> (case py_num (total_sellers st') of None \<Rightarrow> False
               | Some t \<Rightarrow> t \<le> int (length (all_sellers st'))))"
    using assms(1,2) by (simp add: spec_total_reached_def after_page_def)
  moreover have "\<not> spec_transport_failure r"
    using assms(1) by (simp add: spec_transport_failure_def)
  ultimately show ?thesis
    using should_stop_iff [OF assms(3)] process_page_new [OF assms(1,2)]
    by (auto simp: spec_stop_def)
qed

lemma page_step_stops:
  "(\<forall>st'. page_step st r \<noteq> Continue st')
   = (spec_stop st r \<or> bare_body r \<or> (\<exists>e. page_step st r = Raise e))"
proof (cases "fetch_json r")
  case (Inl e)
  then show ?thesis
    by (simp add: page_step_def spec_stop_def spec_transport_failure_def)
next
  case (Inr data)
  show ?thesis
  proof (cases "is_dict data")
    case False
    with Inr have "bare_body r" by (simp add: bare_body_def)
    moreover from False Inr have "\<forall>st'. page_step st r \<noteq> Continue st'"
      by (cases data) (auto simp: page_step_def)
    ultimately show ?thesis by simp
  next
    case True
    then obtain d where d: "data = JDict d" by (cases data) auto
    with Inr have nb: "\<not> bare_body r" by (simp add: bare_body_def)
    show ?thesis
    proof (cases "process_page d st")
      case (Inl e)
      with Inr d show ?thesis by (simp add: page_step_def)
    next
      case pp: (Inr res)
      obtain st1 n where res: "res = (st1, n)" by (cases res)
      show ?thesis
      proof (cases "should_stop st1 n")
        case (Inl e)
        with Inr d pp res show ?thesis by (simp add: page_step_def)
      next
        case ss: (Inr stop)
        from Inr d have f: "fetch_json r = Inr (JDict d)" by simp
        from pp res have p: "process_page d st = Inr (st1, n)" by simp
        from dict_page_stop [OF f p ss] have "stop = spec_stop st r" .
        with Inr d pp res ss nb show ?thesis by (auto simp: page_step_def)
      qed
    qed
  qed
qed

lemma fetch_loop_stopped:
  "\<forall>st'. fetch_loop st rs \<noteq> Pending st' \<Longrightarrow>
     fetch_loop st (rs @ later) = fetch_loop st rs
     \<and> requests_answered st (rs @ later) = requests_answered st rs"
proof (induction rs arbitrary: st)
  case Nil
  then show ?case by simp
next
  case (Cons r rs)
  then show ?case by (cases "page_step st r") auto
qed

lemma coletar_loop_stopped:
  "\<forall>q. coletar_loop to_local p regs envs \<noteq> Pending q \<Longrightarrow>
     coletar_loop to_local p regs (envs @ later) = coletar_loop to_local p regs envs
     \<and> pages_answered to_local (envs @ later) = pages_answered to_local envs"
proof (induction envs arbitrary: p regs)
  case Nil
  then show ?case by simp
next
  case (Cons env envs)
  then show ?case by (cases "coletar_page to_local env") auto
qed

lemma coletar_page_break:
  "(coletar_page to_local env = PageBreak)
   = (\<exists>status body. page_resp env = Resp status body
        \<and> (status \<noteq> 200
            \<or> (\<exists>data v. body = Inr data \<and> py_get data ''list'' (JList []) = Inr v
                  \<and> \<not> truthy v)))"
  by (auto simp: coletar_page_def split: http_outcome.splits option.splits sum.splits)


text \<open>
  C7 (amended). Neither fetcher issues another page request once it has stopped: responses
  after the one it stopped at are never asked for. After a response the loop of
  \<^verbatim>\<open>get_all_sellers\<close> stops exactly when the page returns zero items, or the accumulated count
  has reached a declared (true) total, or the page yields zero new items, or the request
  failed; or, beyond the conditions the specification lists, when the body is not a JSON
  object or processing the page raises. The loop of \<^verbatim>\<open>coletar_itens\<close> breaks exactly when
  the page's status is not 200 or its \<^verbatim>\<open>list\<close> is empty; a page request that fails at
  transport level raises out of the function.
\<close>

theorem pagination_stops:
  "((\<forall>st'. page_step st r \<noteq> Continue st')
      = (spec_stop st r \<or> bare_body r \<or> (\<exists>e. page_step st r = Raise e)))
   \<and> ((\<forall>st'. fetch_loop st rs \<noteq> Pending st') \<longrightarrow>
        fetch_loop st (rs @ later) = fetch_loop st rs
        \<and> requests_answered st (rs @ later) = requests_answered st rs)
   \<and> ((coletar_page to_local env = PageBreak)
      = (\<exists>status body. page_resp env = Resp status body
           \<and> (status \<noteq> 200
               \<or> (\<exists>data v. body = Inr data \<and> py_get data ''list'' (JList []) = Inr v
                     \<and> \<not> truthy v))))
   \<and> (page_resp env = ConnError \<longrightarrow> coletar_page to_local env = PageRaise RequestException)
   \<and> ((\<forall>q. coletar_loop to_local p regs envs \<noteq> Pending q) \<longrightarrow>
        coletar_loop to_local p regs (envs @ more_envs) = coletar_loop to_local p regs envs
        \<and> pages_answered to_local (envs @ more_envs) = pages_answered to_local envs)"
proof (intro conjI)
  show "(\<forall>st'. page_step st r \<noteq> Continue st')
      = (spec_stop st r \<or> bare_body r \<or> (\<exists>e. page_step st r = Raise e))"
    by (rule page_step_stops)
  show "(\<forall>st'. fetch_loop st rs \<noteq> Pending st') \<longrightarrow>
        fetch_loop st (rs @ later) = fetch_loop st rs
        \<and> requests_answered st (rs @ later) = requests_answered st rs"
    using fetch_loop_stopped by blast
  show "(coletar_page to_local env = PageBreak)
      = (\<exists>status body. page_resp env = Resp status body
           \<and> (status \<noteq> 200
               \<or> (\<exists>data v. body = Inr data \<and> py_get data ''list'' (JList []) = Inr v
                     \<and> \<not> truthy v)))"
    by (rule coletar_page_break)
  show "page_resp env = ConnError \<longrightarrow> coletar_page to_local env = PageRaise RequestException"
    by (simp add: coletar_page_def)
  show "(\<forall>q. coletar_loop to_local p regs envs \<noteq> Pending q) \<longrightarrow>
        coletar_loop to_local p regs (envs @ more_envs) = coletar_loop to_local p regs envs
        \<and> pages_answered to_local (envs @ more_envs) = pages_answered to_local envs"
    using coletar_loop_stopped by blast
qed

theorem pagination_stops_witness:
  "fetch_loop init_state
     [Resp 200 (Inr (JDict [(''items'', JList [JDict [(''id'', JStr ''a'')]]),
                             (''paging'', JDict [(''total'', JInt 1)])]))]
     = Returned [JDict [(''id'', JStr ''a'')]]
   \<and> fetch_loop init_state
     ([Resp 200 (Inr (JDict [(''items'', JList [JDict [(''id'', JStr ''a'')]]),
                              (''paging'', JDict [(''total'', JInt 1)])]))]
      @ [Resp 200 (Inr (JDict [(''items'', JList [JDict [(''id'', JStr ''b'')]])]))])
     = Returned [JDict [(''id'', JStr ''a'')]]
   \<and> requests_answered init_state
     ([Resp 200 (Inr (JDict [(''items'', JList [JDict [(''id'', JStr ''a'')]]),
                              (''paging'', JDict [(''total'', JInt 1)])]))]
      @ [Resp 200 (Inr (JDict [(''items'', JList [JDict [(''id'', JStr ''b'')]])]))])
     = 1
   \<and> coletar_page (\<lambda>v. Inr [])
       \<lparr>page_resp = ConnError, det_resp = (\<lambda>i k. ConnError), clock = (\<lambda>i j. [])\<rparr>
     = PageRaise RequestException
   \<and> coletar_loop (\<lambda>v. Inr []) 1 []
       ([\<lparr>page_resp = Resp 500 (Inl JSONDecodeError), det_resp = (\<lambda>i k. ConnError), clock = (\<lambda>i j. [])\<rparr>]
        @ [\<lparr>page_resp = Resp 200 (Inr (JDict [(''list'', JList [JDict [(''orderId'', JInt 5)]])])),
             det_resp = (\<lambda>i k. ConnError), clock = (\<lambda>i j. [])\<rparr>])
     = Returned []"
  (is "?run \<and> ?same \<and> ?count \<and> ?raise \<and> ?col")
proof -
  have run: ?run by code_simp
  then have stopped: "\<forall>st'. fetch_loop init_state
     [Resp 200 (Inr (JDict [(''items'', JList [JDict [(''id'', JStr ''a'')]]),
                             (''paging'', JDict [(''total'', JInt 1)])]))] \<noteq> Pending st'"
    by simp
  have one: "requests_answered init_state
     [Resp 200 (Inr (JDict [(''items'', JList [JDict [(''id'', JStr ''a'')]]),
                             (''paging'', JDict [(''total'', JInt 1)])]))] = 1"
    by code_simp
  note t = pagination_stops [of init_state _
     "[Resp 200 (Inr (JDict [(''items'', JList [JDict [(''id'', JStr ''a'')]]),
                             (''paging'', JDict [(''total'', JInt 1)])]))]"
     "[Resp 200 (Inr (JDict [(''items'', JList [JDict [(''id'', JStr ''b'')]])]))]"
     "\<lambda>v. Inr []"
     "\<lparr>page_resp = ConnError, det_resp = (\<lambda>i k. ConnError), clock = (\<lambda>i j. [])\<rparr>"
     1 "[]"
     "[\<lparr>page_resp = Resp 500 (Inl JSONDecodeError), det_resp = (\<lambda>i k. ConnError), clock = (\<lambda>i j. [])\<rparr>]"
     "[\<lparr>page_resp = Resp 200 (Inr (JDict [(''list'', JList [JDict [(''orderId'', JInt 5)]])])),
             det_resp = (\<lambda>i k. ConnError), clock = (\<lambda>i j. [])\<rparr>]"]
  from t [THEN conjunct2, THEN conjunct1, THEN mp, OF stopped] run one
  have same: ?same and count: ?count by simp_all
  from t [THEN conjunct2, THEN conjunct2, THEN conjunct2, THEN conjunct1]
  have rais: ?raise by simp
  have ret: "coletar_loop (\<lambda>v. Inr []) 1 []
       [\<lparr>page_resp = Resp 500 (Inl JSONDecodeError), det_resp = (\<lambda>i k. ConnError), clock = (\<lambda>i j. [])\<rparr>]
     = Returned []"
    by code_simp
  then have fin: "\<forall>q. coletar_loop (\<lambda>v. Inr []) 1 []
       [\<lparr>page_resp = Resp 500 (Inl JSONDecodeError), det_resp = (\<lambda>i k. ConnError), clock = (\<lambda>i j. [])\<rparr>]
     \<noteq> Pending q"
    by simp
  from t [THEN conjunct2, THEN conjunct2, THEN conjunct2, THEN conjunct2, THEN mp, OF fin] ret
  have ?col by simp
  with run same count rais show ?thesis by blast
qed

theorem bare_list_stop_counterexample:
  "page_step init_state (Resp 200 (Inr (JList [JDict [(''id'', JStr ''a'')]])))
     = Break [JDict [(''id'', JStr ''a'')]]
   \<and> \<not> spec_zero_items (Resp 200 (Inr (JList [JDict [(''id'', JStr ''a'')]])))
   \<and> \<not> spec_total_reached init_state (Resp 200 (Inr (JList [JDict [(''id'', JStr ''a'')]])))
   \<and> \<not> spec_zero_new init_state (Resp 200 (Inr (JList [JDict [(''id'', JStr ''a'')]])))
   \<and> \<not> spec_transport_failure (Resp 200 (Inr (JList [JDict [(''id'', JStr ''a'')]])))
   \<and> \<not> spec_stop init_state (Resp 200 (Inr (JList [JDict [(''id'', JStr ''a'')]])))"
  by code_simp

end
